theory Spec2Isabelle
  imports Complex_Main "HOL-Library.Multiset" "HOL-Library.Product_Lexorder"
begin

section \<open>The tiger POMDP on a belief grid (pomdp\_tiger.ipynb)\<close>

text \<open>
  The notebook discretises the belief state of the tiger POMDP and hands the resulting
  finite MDP to \<^verbatim>\<open>quantecon.markov.DiscreteDP\<close>. This theory embeds the notebook's four
  observation functions, \<^verbatim>\<open>nearest_idx\<close>, \<^verbatim>\<open>tiger_mdp\<close> and the grid construction.

  Conventions of the embedding.
  \<^item> A number is a \<^typ>\<open>real\<close>, and the arithmetic of the notebook is given twice. The
    functions without a suffix compute in exact arithmetic, with the literal \<^verbatim>\<open>0.15\<close>
    read as \<open>3/20\<close>. The functions whose names end in \<open>64\<close> compute as the machine does:
    every operation returns the double nearest to its exact result (\<open>fl64\<close>), and
    \<^verbatim>\<open>0.15\<close> is the double nearest to \<open>3/20\<close>. The statements about sums of probabilities
    and about \<open>nearest_idx\<close> at a grid point are made on the latter.
  \<^item> A one-dimensional numpy array is a list; an arithmetic expression on an array is a
    \<^const>\<open>map\<close> over its elements.
  \<^item> The notebook runs with \<^verbatim>\<open>from __future__ import division\<close>, so \<^verbatim>\<open>1/2\<close> is one half.
  \<^item> The functions of numpy and scipy that the notebook calls (\<^verbatim>\<open>linspace\<close>,
    \<^verbatim>\<open>searchsorted\<close>, \<^verbatim>\<open>argmin\<close>, \<^verbatim>\<open>arange\<close>, \<^verbatim>\<open>repeat\<close>, \<^verbatim>\<open>tile\<close>, \<^verbatim>\<open>empty\<close>, slice
    assignment, \<^verbatim>\<open>coo_matrix\<close>, \<^verbatim>\<open>sum_duplicates\<close>) are modelled after their documented
    behaviour. The constructor \<^verbatim>\<open>DiscreteDP\<close> is not modelled: \<open>tiger_mdp\<close> returns the
    five arguments that the notebook passes to it.
\<close>

subsection \<open>Values and errors\<close>

text \<open>
  The result of a float division in numpy. Dividing an array by an array never raises:
  a zero divisor gives \<^verbatim>\<open>nan\<close> (for \<^verbatim>\<open>0/0\<close>) or an infinity, with a warning only.
  Zero has no sign in the model; a zero divisor is taken as \<^verbatim>\<open>+0.0\<close>.
\<close>

datatype npfloat = Num real | PosInf | NegInf | NaN

definition np_div :: "real \<Rightarrow> real \<Rightarrow> npfloat" where
  "np_div x y =
     (if y = 0 then (if x = 0 then NaN else if 0 < x then PosInf else NegInf)
      else Num (x / y))"

text \<open>
  The order numpy sorts and searches by: \<^verbatim>\<open>a < b\<close>, with \<^verbatim>\<open>nan\<close> after every number.
  Here the left argument is an element of a finite array.
\<close>

fun np_lt :: "real \<Rightarrow> npfloat \<Rightarrow> bool" where
  "np_lt m (Num v) = (m < v)"
| "np_lt m PosInf = True"
| "np_lt m NegInf = False"
| "np_lt m NaN = True"

text \<open>
  \<open>ValueError\<close> and \<open>IndexError\<close> are Python's exceptions of those names.
  \<open>UninitialisedRead\<close> is not an exception of Python: \<^verbatim>\<open>np.empty\<close> leaves arbitrary numbers in an array, and reading
  such a cell goes unnoticed. The model marks a cell that was never written and makes
  reading it a failure, so that a successful run shows that every cell was written.
\<close>

datatype error = ValueError | IndexError | UninitialisedRead

definition bind_err :: "error + 'a \<Rightarrow> ('a \<Rightarrow> error + 'b) \<Rightarrow> error + 'b" where
  "bind_err m f = (case m of Inl e \<Rightarrow> Inl e | Inr x \<Rightarrow> f x)"

subsection \<open>Observation model and Bayesian update\<close>

text \<open>
  \<^verbatim>\<open>
  def prob_TL(belief, noise_prob_L=0.15, noise_prob_R=0.15):
      return (1-noise_prob_L) * (1-belief) + noise_prob_R * belief

  def prob_TR(belief, noise_prob_L=0.15, noise_prob_R=0.15):
      return noise_prob_L * (1-belief) + (1-noise_prob_R) * belief

  def bayes_update_TL(belief, noise_prob_L=0.15, noise_prob_R=0.15):
      return noise_prob_R * belief / prob_TL(belief, noise_prob_L, noise_prob_R)

  def bayes_update_TR(belief, noise_prob_L=0.15, noise_prob_R=0.15):
      return (1-noise_prob_R) * belief / prob_TR(belief, noise_prob_L, noise_prob_R)
  \<close>
  The functions are given per element of the array they are applied to; the notebook
  calls them on the belief grid, a numpy array, so the division is numpy's. (On two
  Python floats the same division would raise \<^verbatim>\<open>ZeroDivisionError\<close>; the notebook never
  calls the functions that way.)
\<close>

definition default_noise :: real where
  "default_noise = 3 / 20"

definition prob_TL :: "real \<Rightarrow> real \<Rightarrow> real \<Rightarrow> real" where
  "prob_TL belief noise_prob_L noise_prob_R =
     (1 - noise_prob_L) * (1 - belief) + noise_prob_R * belief"

definition prob_TR :: "real \<Rightarrow> real \<Rightarrow> real \<Rightarrow> real" where
  "prob_TR belief noise_prob_L noise_prob_R =
     noise_prob_L * (1 - belief) + (1 - noise_prob_R) * belief"

definition bayes_update_TL :: "real \<Rightarrow> real \<Rightarrow> real \<Rightarrow> npfloat" where
  "bayes_update_TL belief noise_prob_L noise_prob_R =
     np_div (noise_prob_R * belief) (prob_TL belief noise_prob_L noise_prob_R)"

definition bayes_update_TR :: "real \<Rightarrow> real \<Rightarrow> real \<Rightarrow> npfloat" where
  "bayes_update_TR belief noise_prob_L noise_prob_R =
     np_div ((1 - noise_prob_R) * belief) (prob_TR belief noise_prob_L noise_prob_R)"

subsection \<open>Nearest grid index\<close>

text \<open>
  \<^verbatim>\<open>
  def nearest_idx(grid, v):
      mid_points = (grid[:-1] + grid[1:]) / 2
      return np.searchsorted(mid_points, v)
  \<close>
  \<^verbatim>\<open>np.searchsorted(a, v)\<close> with the default \<^verbatim>\<open>side='left'\<close> returns, for a sorted array
  \<open>a\<close>, the index \<open>i\<close> with \<^verbatim>\<open>a[i-1] < v <= a[i]\<close>, which is the number of elements of
  \<open>a\<close> below \<open>v\<close>.
\<close>

definition np_searchsorted :: "real list \<Rightarrow> npfloat \<Rightarrow> nat" where
  "np_searchsorted a v = length (filter (\<lambda>m. np_lt m v) a)"

definition mid_points :: "real list \<Rightarrow> real list" where
  "mid_points grid = map2 (\<lambda>x y. (x + y) / 2) (butlast grid) (tl grid)"

definition nearest_idx :: "real list \<Rightarrow> npfloat \<Rightarrow> nat" where
  "nearest_idx grid v = np_searchsorted (mid_points grid) v"

subsection \<open>Grid construction\<close>

text \<open>
  \<^verbatim>\<open>
  grid_size = 5001
  belief_grid = np.linspace(0, 1, grid_size)
  \<close>
  \<^verbatim>\<open>np.linspace(start, stop, num)\<close> returns \<open>num\<close> evenly spaced samples, the last one
  being \<open>stop\<close>; no sample for \<open>num = 0\<close> and the single sample \<open>start\<close> for \<open>num = 1\<close>.
  The count is a natural number here; a negative count is outside the model.
  \<open>belief_grid_of grid_size\<close> is the notebook's \<^verbatim>\<open>belief_grid\<close> for a given \<^verbatim>\<open>grid_size\<close>.
\<close>

definition np_linspace :: "real \<Rightarrow> real \<Rightarrow> nat \<Rightarrow> real list" where
  "np_linspace start stop num =
     (if num = 0 then []
      else if num = 1 then [start]
      else (map (\<lambda>i. start + real i * ((stop - start) / real (num - 1))) [0..<num])
             [num - 1 := stop])"

definition belief_grid_of :: "nat \<Rightarrow> real list" where
  "belief_grid_of grid_size = np_linspace 0 1 grid_size"

subsection \<open>Arrays\<close>

text \<open>
  An array made by \<^verbatim>\<open>np.empty\<close> is a list of cells, \<open>None\<close> for a cell that has not
  been written since. A two-dimensional array is the list of its rows.
\<close>

definition np_empty :: "nat \<Rightarrow> 'a option list" where
  "np_empty n = replicate n None"

definition np_empty2 :: "nat \<Rightarrow> nat \<Rightarrow> 'a option list list" where
  "np_empty2 n m = replicate n (np_empty m)"

text \<open>Broadcasting a one-dimensional value to length \<open>n\<close>: the lengths agree, or the value
  has one element, or the assignment raises \<^verbatim>\<open>ValueError\<close>.\<close>

definition broadcast_to :: "nat \<Rightarrow> 'a list \<Rightarrow> error + 'a list" where
  "broadcast_to n vs =
     (if length vs = n then Inr vs
      else if length vs = 1 then Inr (replicate n (hd vs))
      else Inl ValueError)"

text \<open>The cells \<^verbatim>\<open>arr[lo:hi]\<close> of an array of length \<open>n\<close>, for bounds that are not
  negative: both bounds are clipped to \<open>n\<close>, and the slice is empty when \<open>hi \<le> lo\<close>.\<close>

definition slice_bounds :: "nat \<Rightarrow> nat \<Rightarrow> nat \<Rightarrow> nat \<times> nat" where
  "slice_bounds n lo hi = (let l = min lo n in (l, max l (min hi n)))"

text \<open>\<^verbatim>\<open>arr[lo:hi] = vs\<close> for an array \<open>vs\<close>, and \<^verbatim>\<open>arr[lo:hi] = v\<close> for a scalar \<open>v\<close>.\<close>

definition set_slice :: "'a option list \<Rightarrow> nat \<Rightarrow> nat \<Rightarrow> 'a list \<Rightarrow> error + 'a option list" where
  "set_slice arr lo hi vs =
     (case slice_bounds (length arr) lo hi of (l, h) \<Rightarrow>
        bind_err (broadcast_to (h - l) vs)
          (\<lambda>ws. Inr (take l arr @ map Some ws @ drop h arr)))"

definition fill_slice :: "'a option list \<Rightarrow> nat \<Rightarrow> nat \<Rightarrow> 'a \<Rightarrow> 'a option list" where
  "fill_slice arr lo hi v =
     (case slice_bounds (length arr) lo hi of (l, h) \<Rightarrow>
        take l arr @ replicate (h - l) (Some v) @ drop h arr)"

text \<open>\<^verbatim>\<open>A[:, j] = vs\<close> and \<^verbatim>\<open>A[:, j] = v\<close> on a two-dimensional array; a column index
  beyond the row length raises \<^verbatim>\<open>IndexError\<close>.\<close>

definition set_col :: "'a option list list \<Rightarrow> nat \<Rightarrow> 'a list \<Rightarrow> error + 'a option list list" where
  "set_col A j vs =
     (if \<exists>r \<in> set A. length r \<le> j then Inl IndexError
      else bind_err (broadcast_to (length A) vs)
             (\<lambda>ws. Inr (map2 (\<lambda>r w. r[j := Some w]) A ws)))"

definition fill_col :: "'a option list list \<Rightarrow> nat \<Rightarrow> 'a \<Rightarrow> error + 'a option list list" where
  "fill_col A j v =
     (if \<exists>r \<in> set A. length r \<le> j then Inl IndexError
      else Inr (map (\<lambda>r. r[j := Some v]) A))"

text \<open>Reading a whole array, as the consumers of \<^verbatim>\<open>R\<close>, \<^verbatim>\<open>data\<close>, \<^verbatim>\<open>row\<close> and \<^verbatim>\<open>col\<close> do.\<close>

definition initialised :: "'a option list \<Rightarrow> error + 'a list" where
  "initialised arr = (if None \<in> set arr then Inl UninitialisedRead else Inr (map the arr))"

text \<open>\<^verbatim>\<open>np.arange(start, stop, step)\<close> for a positive step, \<^verbatim>\<open>np.repeat(xs, n)\<close> (each
  element \<open>n\<close> times in a row) and \<^verbatim>\<open>np.tile(xs, n)\<close> (the whole array \<open>n\<close> times).\<close>

definition np_arange :: "nat \<Rightarrow> nat \<Rightarrow> nat \<Rightarrow> nat list" where
  "np_arange start stop step =
     map (\<lambda>k. start + k * step) [0..<(stop - start + step - 1) div step]"

definition np_repeat :: "'a list \<Rightarrow> nat \<Rightarrow> 'a list" where
  "np_repeat xs n = concat (map (replicate n) xs)"

definition np_tile :: "'a list \<Rightarrow> nat \<Rightarrow> 'a list" where
  "np_tile xs n = concat (replicate n xs)"

text \<open>\<^verbatim>\<open>xs.argmin()\<close>: the index of the first occurrence of the minimum; \<^verbatim>\<open>ValueError\<close>
  on an empty array.\<close>

definition np_argmin :: "real list \<Rightarrow> error + nat" where
  "np_argmin xs =
     (if xs = [] then Inl ValueError
      else Inr (length (takeWhile (\<lambda>x. x \<noteq> Min (set xs)) xs)))"

subsection \<open>Sparse matrices in coordinate format\<close>

text \<open>
  \<^verbatim>\<open>sparse.coo_matrix((data, (row, col)), shape=(m, n))\<close> keeps the three arrays as they
  are and raises \<^verbatim>\<open>ValueError\<close> when they differ in length or an index exceeds the
  shape. \<^verbatim>\<open>sum_duplicates()\<close> orders the entries by column, then row
  (\<^verbatim>\<open>np.lexsort((row, col))\<close>), and replaces the entries of one position by their sum.
\<close>

record coo =
  coo_shape :: "nat \<times> nat"
  coo_data :: "real list"
  coo_row :: "nat list"
  coo_col :: "nat list"

definition coo_matrix :: "real list \<Rightarrow> nat list \<Rightarrow> nat list \<Rightarrow> nat \<times> nat \<Rightarrow> error + coo" where
  "coo_matrix data row col shape =
     (if length row \<noteq> length data \<or> length col \<noteq> length data then Inl ValueError
      else if (\<exists>r \<in> set row. fst shape \<le> r) \<or> (\<exists>c \<in> set col. snd shape \<le> c)
        then Inl ValueError
      else Inr \<lparr>coo_shape = shape, coo_data = data, coo_row = row, coo_col = col\<rparr>)"

definition triplets :: "coo \<Rightarrow> (nat \<times> nat \<times> real) list" where
  "triplets M = zip (coo_row M) (zip (coo_col M) (coo_data M))"

definition sum_duplicates :: "coo \<Rightarrow> coo" where
  "sum_duplicates M =
     (let ts = triplets M;
          keys = sort_key (\<lambda>(r, c). (c, r)) (remdups (map (\<lambda>(r, c, d). (r, c)) ts));
          summed = map (\<lambda>(r, c). sum_list (map (\<lambda>(r', c', d). d)
                         (filter (\<lambda>(r', c', d). r' = r \<and> c' = c) ts))) keys
      in M\<lparr>coo_data := summed, coo_row := map fst keys, coo_col := map snd keys\<rparr>)"

text \<open>What the claims read off a matrix: the positions it stores, the entries
  \<open>(target, probability)\<close> stored for one row, and their sum.\<close>

definition coo_keys :: "coo \<Rightarrow> (nat \<times> nat) list" where
  "coo_keys M = map (\<lambda>(r, c, d). (r, c)) (triplets M)"

definition row_entries :: "coo \<Rightarrow> nat \<Rightarrow> (nat \<times> real) list" where
  "row_entries M i = map snd (filter (\<lambda>(r, c, d). r = i) (triplets M))"

definition row_sum :: "coo \<Rightarrow> nat \<Rightarrow> real" where
  "row_sum M i = sum_list (map snd (row_entries M i))"

subsection \<open>The MDP of the tiger problem\<close>

text \<open>
  \<^verbatim>\<open>
  def tiger_mdp(belief_grid, beta=0.95):
      num_actions = 3                       # 0: Listen, 1: OpenL, 2: OpenR
      grid_size = len(belief_grid)
      L = grid_size * num_actions
      s_indices = np.repeat(np.arange(grid_size), num_actions)
      a_indices = np.tile(np.arange(num_actions), grid_size)

      reward = 10
      penalty = -100
      cost = -1
      R = np.empty((grid_size, num_actions))
      R[:, 0] = cost
      R[:, 1] = penalty * (1 - belief_grid) + reward * belief_grid
      R[:, 2] = reward * (1 - belief_grid) + penalty * belief_grid
      R.shape = (L,)

      data = np.empty(grid_size*(num_actions+1))
      row = np.empty(grid_size*(num_actions+1), dtype=int)
      col = np.empty(grid_size*(num_actions+1), dtype=int)

      a = 0
      data[a*grid_size:(a+1)*grid_size] = prob_TL(belief_grid)
      row[a*grid_size:(a+1)*grid_size] = np.arange(a, L, num_actions)
      col[a*grid_size:(a+1)*grid_size] = \
          nearest_idx(belief_grid, bayes_update_TL(belief_grid))
      data[(a+1)*grid_size:(a+2)*grid_size] = prob_TR(belief_grid)
      row[(a+1)*grid_size:(a+2)*grid_size] = np.arange(a, L, num_actions)
      col[(a+1)*grid_size:(a+2)*grid_size] = \
          nearest_idx(belief_grid, bayes_update_TR(belief_grid))

      prob_half_idx = np.abs(belief_grid-1/2).argmin()
      for a in [1, 2]:
          data[(a+1)*grid_size:(a+2)*grid_size] = 1
          row[(a+1)*grid_size:(a+2)*grid_size] = np.arange(a, L, num_actions)
          col[(a+1)*grid_size:(a+2)*grid_size] = prob_half_idx

      Q = sparse.coo_matrix((data, (row, col)), shape=(L,grid_size))
      Q.sum_duplicates()
      return DiscreteDP(R, Q, beta, s_indices, a_indices)
  \<close>
  The function is cut at its own comment lines into the reward vector, the writes for
  Listen and the body of the loop over the two Open actions.
\<close>

definition num_actions :: nat where
  "num_actions = 3"

definition reward :: real where
  "reward = 10"

definition penalty :: real where
  "penalty = - 100"

definition cost :: real where
  "cost = - 1"

definition reward_vector :: "real list \<Rightarrow> error + real list" where
  "reward_vector belief_grid =
     (let grid_size = length belief_grid;
          R = np_empty2 grid_size num_actions
      in bind_err (fill_col R 0 cost) (\<lambda>R.
         bind_err (set_col R 1 (map (\<lambda>b. penalty * (1 - b) + reward * b) belief_grid)) (\<lambda>R.
         bind_err (set_col R 2 (map (\<lambda>b. reward * (1 - b) + penalty * b) belief_grid)) (\<lambda>R.
         initialised (concat R)))))"

type_synonym triplet_arrays = "real option list \<times> nat option list \<times> nat option list"

definition listen_writes :: "real list \<Rightarrow> triplet_arrays \<Rightarrow> error + triplet_arrays" where
  "listen_writes belief_grid t =
     (case t of (data, row, col) \<Rightarrow>
      let grid_size = length belief_grid;
          L = grid_size * num_actions;
          a = 0
      in bind_err (set_slice data (a * grid_size) ((a + 1) * grid_size)
                    (map (\<lambda>b. prob_TL b default_noise default_noise) belief_grid)) (\<lambda>data.
         bind_err (set_slice row (a * grid_size) ((a + 1) * grid_size)
                    (np_arange a L num_actions)) (\<lambda>row.
         bind_err (set_slice col (a * grid_size) ((a + 1) * grid_size)
                    (map (\<lambda>b. nearest_idx belief_grid
                                 (bayes_update_TL b default_noise default_noise)) belief_grid)) (\<lambda>col.
         bind_err (set_slice data ((a + 1) * grid_size) ((a + 2) * grid_size)
                    (map (\<lambda>b. prob_TR b default_noise default_noise) belief_grid)) (\<lambda>data.
         bind_err (set_slice row ((a + 1) * grid_size) ((a + 2) * grid_size)
                    (np_arange a L num_actions)) (\<lambda>row.
         bind_err (set_slice col ((a + 1) * grid_size) ((a + 2) * grid_size)
                    (map (\<lambda>b. nearest_idx belief_grid
                                 (bayes_update_TR b default_noise default_noise)) belief_grid)) (\<lambda>col.
         Inr (data, row, col))))))))"

definition open_writes :: "nat \<Rightarrow> nat \<Rightarrow> nat \<Rightarrow> triplet_arrays \<Rightarrow> error + triplet_arrays" where
  "open_writes grid_size prob_half_idx a t =
     (case t of (data, row, col) \<Rightarrow>
      let L = grid_size * num_actions;
          data = fill_slice data ((a + 1) * grid_size) ((a + 2) * grid_size) 1
      in bind_err (set_slice row ((a + 1) * grid_size) ((a + 2) * grid_size)
                    (np_arange a L num_actions)) (\<lambda>row.
         Inr (data, row,
              fill_slice col ((a + 1) * grid_size) ((a + 2) * grid_size) prob_half_idx)))"

text \<open>A \<^verbatim>\<open>for\<close> loop over a list of actions whose body may raise.\<close>

fun for_actions ::
  "nat list \<Rightarrow> (nat \<Rightarrow> triplet_arrays \<Rightarrow> error + triplet_arrays) \<Rightarrow> triplet_arrays
     \<Rightarrow> error + triplet_arrays" where
  "for_actions [] body t = Inr t"
| "for_actions (a # as) body t = bind_err (body a t) (for_actions as body)"

record discrete_dp =
  dp_R :: "real list"
  dp_Q :: coo
  dp_beta :: real
  dp_s_indices :: "nat list"
  dp_a_indices :: "nat list"

definition tiger_mdp :: "real list \<Rightarrow> real \<Rightarrow> error + discrete_dp" where
  "tiger_mdp belief_grid beta =
     (let grid_size = length belief_grid;
          L = grid_size * num_actions;
          s_indices = np_repeat (np_arange 0 grid_size 1) num_actions;
          a_indices = np_tile (np_arange 0 num_actions 1) grid_size
      in bind_err (reward_vector belief_grid) (\<lambda>R.
         let data = np_empty (grid_size * (num_actions + 1));
             row = np_empty (grid_size * (num_actions + 1));
             col = np_empty (grid_size * (num_actions + 1))
         in bind_err (listen_writes belief_grid (data, row, col)) (\<lambda>t.
            bind_err (np_argmin (map (\<lambda>b. \<bar>b - 1 / 2\<bar>) belief_grid)) (\<lambda>prob_half_idx.
            bind_err (for_actions [1, 2] (open_writes grid_size prob_half_idx) t) (\<lambda>(data, row, col).
            bind_err (initialised data) (\<lambda>data.
            bind_err (initialised row) (\<lambda>row.
            bind_err (initialised col) (\<lambda>col.
            bind_err (coo_matrix data row col (L, grid_size)) (\<lambda>Q.
            Inr \<lparr>dp_R = R, dp_Q = sum_duplicates Q, dp_beta = beta,
                 dp_s_indices = s_indices, dp_a_indices = a_indices\<rparr>)))))))))"

subsection \<open>float64 arithmetic\<close>

text \<open>
  A double is a real \<open>m * 2 ^ e\<close> with an integer \<open>m\<close> of magnitude below \<open>2 ^ 53\<close> and an
  exponent \<open>e\<close> of at least \<open>-1074\<close>. Every float64 operation of Python and numpy returns
  the double nearest to the exact result, on a tie the one with the even \<open>m\<close>
  (IEEE 754 round to nearest, ties to even).

  \<open>ilog2 x\<close> is, for a positive \<open>x\<close>, the integer \<open>k\<close> with \<open>2 ^ k \<le> x < 2 ^ (k + 1)\<close>.
  \<open>expo64 x\<close> is the exponent of the doubles around \<open>x\<close>: \<open>k - 52\<close>, and \<open>-1074\<close> in the
  subnormal range, where the doubles stay \<open>2 ^ - 1074\<close> apart. \<open>fl64 x\<close> scales \<open>x\<close> by that
  power of two, rounds to the nearest integer, ties to even, and scales back.

  Overflow is not modelled: a result of magnitude \<open>2 ^ 1024\<close> or more is rounded as if the
  exponents had no upper end, where the machine returns an infinity. The statements
  below are about beliefs, probabilities and grids in the unit interval, whose sums and
  products stay below 8. Zero has no sign.
\<close>

function ilog2 :: "real \<Rightarrow> int" where
  "ilog2 x =
     (if x \<le> 0 then 0
      else if 2 \<le> x then ilog2 (x / 2) + 1
      else if x < 1 then ilog2 (x * 2) - 1
      else 0)"
  by pat_completeness auto
termination
proof (relation "measure (\<lambda>x. if 1 \<le> x then nat \<lfloor>x\<rfloor> else nat \<lceil>1 / x\<rceil>)")
  show "wf (measure (\<lambda>x::real. if 1 \<le> x then nat \<lfloor>x\<rfloor> else nat \<lceil>1 / x\<rceil>))"
    by simp
next
  fix x :: real
  assume "\<not> x \<le> 0" and "2 \<le> x"
  then have "\<lfloor>x / 2\<rfloor> < \<lfloor>x\<rfloor>" and "0 < \<lfloor>x\<rfloor>"
    by linarith+
  then show "(x / 2, x) \<in> measure (\<lambda>x. if 1 \<le> x then nat \<lfloor>x\<rfloor> else nat \<lceil>1 / x\<rceil>)"
    using \<open>2 \<le> x\<close> by simp
next
  fix x :: real
  assume x: "\<not> x \<le> 0" "\<not> 2 \<le> x" "x < 1"
  have big: "2 \<le> \<lceil>1 / x\<rceil>"
  proof -
    have "1 < 1 / x" using x by simp
    then show ?thesis by linarith
  qed
  show "(x * 2, x) \<in> measure (\<lambda>x. if 1 \<le> x then nat \<lfloor>x\<rfloor> else nat \<lceil>1 / x\<rceil>)"
  proof (cases "1 \<le> x * 2")
    case True
    then have "\<lfloor>x * 2\<rfloor> = 1" using x by linarith
    then show ?thesis using True x big by simp
  next
    case False
    then have "2 < 1 / x" using x by (simp add: field_simps)
    moreover have "1 / (x * 2) = (1 / x) / 2" by simp
    ultimately have "\<lceil>1 / (x * 2)\<rceil> < \<lceil>1 / x\<rceil>" by linarith
    then show ?thesis using False x big by simp
  qed
qed

declare ilog2.simps [simp del]

definition round_half_even :: "real \<Rightarrow> int" where
  "round_half_even y =
     (let f = \<lfloor>y\<rfloor>; r = y - of_int f
      in if r < 1 / 2 then f else if 1 / 2 < r then f + 1 else if even f then f else f + 1)"

definition expo64 :: "real \<Rightarrow> int" where
  "expo64 x = max (ilog2 \<bar>x\<bar> - 52) (- 1074)"

definition fl64 :: "real \<Rightarrow> real" where
  "fl64 x =
     (if x = 0 then 0
      else of_int (round_half_even (x / power_int 2 (expo64 x))) * power_int 2 (expo64 x))"

text \<open>
  The sum, difference and product of two doubles, and numpy's quotient of two array
  elements (\<^verbatim>\<open>nan\<close> or an infinity for a zero divisor, as for \<open>np_div\<close>).
\<close>

definition add64 :: "real \<Rightarrow> real \<Rightarrow> real" where
  "add64 a b = fl64 (a + b)"

definition sub64 :: "real \<Rightarrow> real \<Rightarrow> real" where
  "sub64 a b = fl64 (a - b)"

definition mul64 :: "real \<Rightarrow> real \<Rightarrow> real" where
  "mul64 a b = fl64 (a * b)"

definition np_div64 :: "real \<Rightarrow> real \<Rightarrow> npfloat" where
  "np_div64 x y =
     (if y = 0 then (if x = 0 then NaN else if 0 < x then PosInf else NegInf)
      else Num (fl64 (x / y)))"

text \<open>The literal \<^verbatim>\<open>0.15\<close>, the default of both noise parameters.\<close>

definition noise64 :: real where
  "noise64 = fl64 (3 / 20)"

subsection \<open>The notebook's functions in float64 arithmetic\<close>

text \<open>
  The functions of the notebook once more, each arithmetic operation of the source
  replaced by the float64 operation, in the order in which Python evaluates the
  expression: \<^verbatim>\<open>(1-noise_prob_L) * (1-belief) + noise_prob_R * belief\<close> is two
  subtractions, two products and one sum, \<^verbatim>\<open>noise_prob_R * belief / prob_TL(...)\<close> is the
  product divided by the probability, and \<^verbatim>\<open>(grid[:-1] + grid[1:]) / 2\<close> is a sum and a
  division. Comparisons, \<^verbatim>\<open>abs\<close>, slicing and indexing are exact. In \<open>tiger_mdp64\<close> the
  integer constants \<^verbatim>\<open>reward\<close>, \<^verbatim>\<open>penalty\<close> and \<^verbatim>\<open>cost\<close> enter the float64 products as
  the doubles of the same value, and \<^verbatim>\<open>sum_duplicates\<close> adds the entries of one position
  with float64 additions, from the first to the last; \<open>tiger_mdp\<close> produces at most two
  entries per position.
\<close>

definition prob_TL64 :: "real \<Rightarrow> real \<Rightarrow> real \<Rightarrow> real" where
  "prob_TL64 belief noise_prob_L noise_prob_R =
     add64 (mul64 (sub64 1 noise_prob_L) (sub64 1 belief)) (mul64 noise_prob_R belief)"

definition prob_TR64 :: "real \<Rightarrow> real \<Rightarrow> real \<Rightarrow> real" where
  "prob_TR64 belief noise_prob_L noise_prob_R =
     add64 (mul64 noise_prob_L (sub64 1 belief)) (mul64 (sub64 1 noise_prob_R) belief)"

definition bayes_update_TL64 :: "real \<Rightarrow> real \<Rightarrow> real \<Rightarrow> npfloat" where
  "bayes_update_TL64 belief noise_prob_L noise_prob_R =
     np_div64 (mul64 noise_prob_R belief) (prob_TL64 belief noise_prob_L noise_prob_R)"

definition bayes_update_TR64 :: "real \<Rightarrow> real \<Rightarrow> real \<Rightarrow> npfloat" where
  "bayes_update_TR64 belief noise_prob_L noise_prob_R =
     np_div64 (mul64 (sub64 1 noise_prob_R) belief) (prob_TR64 belief noise_prob_L noise_prob_R)"

definition mid_points64 :: "real list \<Rightarrow> real list" where
  "mid_points64 grid = map2 (\<lambda>x y. fl64 (add64 x y / 2)) (butlast grid) (tl grid)"

definition nearest_idx64 :: "real list \<Rightarrow> npfloat \<Rightarrow> nat" where
  "nearest_idx64 grid v = np_searchsorted (mid_points64 grid) v"

definition reduce_add64 :: "real list \<Rightarrow> real" where
  "reduce_add64 vs = (case vs of [] \<Rightarrow> 0 | v # ws \<Rightarrow> foldl add64 v ws)"

definition sum_duplicates64 :: "coo \<Rightarrow> coo" where
  "sum_duplicates64 M =
     (let ts = triplets M;
          keys = sort_key (\<lambda>(r, c). (c, r)) (remdups (map (\<lambda>(r, c, d). (r, c)) ts));
          summed = map (\<lambda>(r, c). reduce_add64 (map (\<lambda>(r', c', d). d)
                         (filter (\<lambda>(r', c', d). r' = r \<and> c' = c) ts))) keys
      in M\<lparr>coo_data := summed, coo_row := map fst keys, coo_col := map snd keys\<rparr>)"

definition reward_vector64 :: "real list \<Rightarrow> error + real list" where
  "reward_vector64 belief_grid =
     (let grid_size = length belief_grid;
          R = np_empty2 grid_size num_actions
      in bind_err (fill_col R 0 cost) (\<lambda>R.
         bind_err (set_col R 1
                    (map (\<lambda>b. add64 (mul64 penalty (sub64 1 b)) (mul64 reward b)) belief_grid)) (\<lambda>R.
         bind_err (set_col R 2
                    (map (\<lambda>b. add64 (mul64 reward (sub64 1 b)) (mul64 penalty b)) belief_grid)) (\<lambda>R.
         initialised (concat R)))))"

definition listen_writes64 :: "real list \<Rightarrow> triplet_arrays \<Rightarrow> error + triplet_arrays" where
  "listen_writes64 belief_grid t =
     (case t of (data, row, col) \<Rightarrow>
      let grid_size = length belief_grid;
          L = grid_size * num_actions;
          a = 0
      in bind_err (set_slice data (a * grid_size) ((a + 1) * grid_size)
                    (map (\<lambda>b. prob_TL64 b noise64 noise64) belief_grid)) (\<lambda>data.
         bind_err (set_slice row (a * grid_size) ((a + 1) * grid_size)
                    (np_arange a L num_actions)) (\<lambda>row.
         bind_err (set_slice col (a * grid_size) ((a + 1) * grid_size)
                    (map (\<lambda>b. nearest_idx64 belief_grid
                                 (bayes_update_TL64 b noise64 noise64)) belief_grid)) (\<lambda>col.
         bind_err (set_slice data ((a + 1) * grid_size) ((a + 2) * grid_size)
                    (map (\<lambda>b. prob_TR64 b noise64 noise64) belief_grid)) (\<lambda>data.
         bind_err (set_slice row ((a + 1) * grid_size) ((a + 2) * grid_size)
                    (np_arange a L num_actions)) (\<lambda>row.
         bind_err (set_slice col ((a + 1) * grid_size) ((a + 2) * grid_size)
                    (map (\<lambda>b. nearest_idx64 belief_grid
                                 (bayes_update_TR64 b noise64 noise64)) belief_grid)) (\<lambda>col.
         Inr (data, row, col))))))))"

definition tiger_mdp64 :: "real list \<Rightarrow> real \<Rightarrow> error + discrete_dp" where
  "tiger_mdp64 belief_grid beta =
     (let grid_size = length belief_grid;
          L = grid_size * num_actions;
          s_indices = np_repeat (np_arange 0 grid_size 1) num_actions;
          a_indices = np_tile (np_arange 0 num_actions 1) grid_size
      in bind_err (reward_vector64 belief_grid) (\<lambda>R.
         let data = np_empty (grid_size * (num_actions + 1));
             row = np_empty (grid_size * (num_actions + 1));
             col = np_empty (grid_size * (num_actions + 1))
         in bind_err (listen_writes64 belief_grid (data, row, col)) (\<lambda>t.
            bind_err (np_argmin (map (\<lambda>b. \<bar>sub64 b (1 / 2)\<bar>) belief_grid)) (\<lambda>prob_half_idx.
            bind_err (for_actions [1, 2] (open_writes grid_size prob_half_idx) t) (\<lambda>(data, row, col).
            bind_err (initialised data) (\<lambda>data.
            bind_err (initialised row) (\<lambda>row.
            bind_err (initialised col) (\<lambda>col.
            bind_err (coo_matrix data row col (L, grid_size)) (\<lambda>Q.
            Inr \<lparr>dp_R = R, dp_Q = sum_duplicates64 Q, dp_beta = beta,
                 dp_s_indices = s_indices, dp_a_indices = a_indices\<rparr>)))))))))"

subsection \<open>Notions used in the statements\<close>

text \<open>
  The entries \<open>(row, col, data)\<close> that \<open>tiger_mdp\<close> hands to \<^verbatim>\<open>coo_matrix\<close>, in the order
  of the three arrays: for a grid and a value \<open>h\<close> of \<^verbatim>\<open>prob_half_idx\<close>, the two Listen
  segments and the segments of the two Open actions. Lemma \<open>tiger_mdp_eq\<close> below shows
  that these are the arrays the function builds.
\<close>

definition assembled :: "real list \<Rightarrow> nat \<Rightarrow> (nat \<times> nat \<times> real) list" where
  "assembled grid h =
     map (\<lambda>k. (0 + k * 3,
               nearest_idx grid (bayes_update_TL (grid ! k) default_noise default_noise),
               prob_TL (grid ! k) default_noise default_noise)) [0..<length grid]
     @ map (\<lambda>k. (0 + k * 3,
               nearest_idx grid (bayes_update_TR (grid ! k) default_noise default_noise),
               prob_TR (grid ! k) default_noise default_noise)) [0..<length grid]
     @ map (\<lambda>k. (1 + k * 3, h, 1)) [0..<length grid]
     @ map (\<lambda>k. (2 + k * 3, h, 1)) [0..<length grid]"

text \<open>The same entries for \<open>tiger_mdp64\<close>.\<close>

definition assembled64 :: "real list \<Rightarrow> nat \<Rightarrow> (nat \<times> nat \<times> real) list" where
  "assembled64 grid h =
     map (\<lambda>k. (0 + k * 3,
               nearest_idx64 grid (bayes_update_TL64 (grid ! k) noise64 noise64),
               prob_TL64 (grid ! k) noise64 noise64)) [0..<length grid]
     @ map (\<lambda>k. (0 + k * 3,
               nearest_idx64 grid (bayes_update_TR64 (grid ! k) noise64 noise64),
               prob_TR64 (grid ! k) noise64 noise64)) [0..<length grid]
     @ map (\<lambda>k. (1 + k * 3, h, 1)) [0..<length grid]
     @ map (\<lambda>k. (2 + k * 3, h, 1)) [0..<length grid]"


section \<open>Properties\<close>

subsection \<open>Slice assignment and \<open>arange\<close>\<close>

lemma bind_err_Inr [simp]: "bind_err (Inr x) f = f x"
  by (simp add: bind_err_def)

lemma bind_err_Inl [simp]: "bind_err (Inl e) f = Inl e"
  by (simp add: bind_err_def)

lemma broadcast_to_same [simp]: "length vs = n \<Longrightarrow> broadcast_to n vs = Inr vs"
  by (simp add: broadcast_to_def)

lemma set_slice_segment:
  assumes "lo = length xs" and "hi = lo + length vs" and "length vs \<le> length ys"
  shows "set_slice (xs @ ys) lo hi vs = Inr (xs @ map Some vs @ drop (length vs) ys)"
proof -
  have "slice_bounds (length (xs @ ys)) lo hi = (length xs, length xs + length vs)"
    using assms by (simp add: slice_bounds_def Let_def min_def max_def)
  then show ?thesis
    using assms by (simp add: set_slice_def)
qed

lemma length_np_arange: "a < 3 \<Longrightarrow> length (np_arange a (n * 3) 3) = n"
  by (simp add: np_arange_def)

lemma nth_np_arange:
  "k < length (np_arange a stop step) \<Longrightarrow> np_arange a stop step ! k = a + k * step"
  by (simp add: np_arange_def)

lemma np_arange_map: "a < 3 \<Longrightarrow> np_arange a (n * 3) 3 = map (\<lambda>k. a + k * 3) [0..<n]"
proof -
  assume "a < 3"
  then have "(n * 3 - a + 3 - 1) div 3 = n" by arith
  then show ?thesis by (simp add: np_arange_def)
qed

subsection \<open>The three triplet arrays, stage by stage\<close>

lemma set_slice_first:
  assumes "length arr = G * 4" and "length vs = G"
  shows "set_slice arr (0 * G) ((0 + 1) * G) vs = Inr (map Some vs @ drop G arr)"
  using set_slice_segment [of 0 "[]" "G" vs arr] assms by simp

lemma set_slice_second:
  assumes "length arr = G * 4" and "length vs = G" and "length ws = G"
  shows "set_slice (map Some vs @ drop G arr) ((0 + 1) * G) ((0 + 2) * G) ws
           = Inr (map Some (vs @ ws) @ drop (G * 2) arr)"
  using set_slice_segment [of G "map Some vs" "G + G" ws "drop G arr"] assms
  by (simp add: mult_2_right)

lemma listen_writes_eq:
  assumes "length data = length grid * 4" and "length row = length grid * 4"
    and "length col = length grid * 4"
  shows "listen_writes grid (data, row, col) =
     Inr (map Some (map (\<lambda>b. prob_TL b default_noise default_noise) grid
                    @ map (\<lambda>b. prob_TR b default_noise default_noise) grid)
            @ drop (length grid * 2) data,
          map Some (np_arange 0 (length grid * 3) 3 @ np_arange 0 (length grid * 3) 3)
            @ drop (length grid * 2) row,
          map Some (map (\<lambda>b. nearest_idx grid (bayes_update_TL b default_noise default_noise)) grid
                    @ map (\<lambda>b. nearest_idx grid (bayes_update_TR b default_noise default_noise)) grid)
            @ drop (length grid * 2) col)"
proof -
  have len: "length (np_arange 0 (length grid * 3) 3) = length grid"
    by (simp add: length_np_arange)
  show ?thesis
    unfolding listen_writes_def Let_def num_actions_def
    by (simp only: prod.case bind_err_Inr length_map len
          set_slice_first [OF assms(1)] set_slice_first [OF assms(2)] set_slice_first [OF assms(3)]
          set_slice_second [OF assms(1)] set_slice_second [OF assms(2)]
          set_slice_second [OF assms(3)])
qed

lemma set_slice_at:
  assumes "hi = lo + length vs" and "hi \<le> length arr"
  shows "set_slice arr lo hi vs = Inr (take lo arr @ map Some vs @ drop hi arr)"
proof -
  have "slice_bounds (length arr) lo hi = (lo, hi)"
    using assms by (simp add: slice_bounds_def Let_def min_def max_def)
  then show ?thesis
    using assms by (simp add: set_slice_def)
qed

lemma fill_slice_at:
  assumes "hi = lo + n" and "hi \<le> length arr"
  shows "fill_slice arr lo hi v = take lo arr @ replicate n (Some v) @ drop hi arr"
proof -
  have "slice_bounds (length arr) lo hi = (lo, hi)"
    using assms by (simp add: slice_bounds_def Let_def min_def max_def)
  then show ?thesis
    using assms by (simp add: fill_slice_def)
qed

lemma open_writes_eq:
  assumes "length data = G * 4" and "length row = G * 4" and "length col = G * 4"
    and "a = 1 \<or> a = 2"
  shows "open_writes G h a (data, row, col) =
     Inr (take ((a + 1) * G) data @ replicate G (Some 1) @ drop ((a + 2) * G) data,
          take ((a + 1) * G) row @ map Some (np_arange a (G * 3) 3) @ drop ((a + 2) * G) row,
          take ((a + 1) * G) col @ replicate G (Some h) @ drop ((a + 2) * G) col)"
proof -
  have a3: "a < 3" and hi: "(a + 2) * G = (a + 1) * G + G" and le: "(a + 2) * G \<le> G * 4"
    using assms(4) by auto
  have len: "length (np_arange a (G * 3) 3) = G"
    using a3 by (simp add: length_np_arange)
  have d: "fill_slice data ((a + 1) * G) ((a + 2) * G) 1
             = take ((a + 1) * G) data @ replicate G (Some 1) @ drop ((a + 2) * G) data"
    using hi le assms(1) by (intro fill_slice_at) simp_all
  have c: "fill_slice col ((a + 1) * G) ((a + 2) * G) h
             = take ((a + 1) * G) col @ replicate G (Some h) @ drop ((a + 2) * G) col"
    using hi le assms(3) by (intro fill_slice_at) simp_all
  have r: "set_slice row ((a + 1) * G) ((a + 2) * G) (np_arange a (G * 3) 3)
             = Inr (take ((a + 1) * G) row @ map Some (np_arange a (G * 3) 3)
                      @ drop ((a + 2) * G) row)"
    using hi le assms(2) len by (intro set_slice_at) simp_all
  show ?thesis
    unfolding open_writes_def Let_def num_actions_def
    by (simp only: prod.case bind_err_Inr d c r)
qed

lemma for_actions_open_writes:
  assumes "length d = G * 2" and "length r = G * 2" and "length c = G * 2"
  shows "for_actions [1, 2] (open_writes G h)
           (map Some d @ replicate (G * 2) None, map Some r @ replicate (G * 2) None,
            map Some c @ replicate (G * 2) None) =
     Inr (map Some (d @ replicate G 1 @ replicate G 1),
          map Some (r @ np_arange 1 (G * 3) 3 @ np_arange 2 (G * 3) 3),
          map Some (c @ replicate G h @ replicate G h))"
proof -
  have one: "open_writes G h 1
           (map Some d @ replicate (G * 2) None, map Some r @ replicate (G * 2) None,
            map Some c @ replicate (G * 2) None) =
     Inr (map Some (d @ replicate G 1) @ replicate G None,
          map Some (r @ np_arange 1 (G * 3) 3) @ replicate G None,
          map Some (c @ replicate G h) @ replicate G None)"
    using assms by (subst open_writes_eq) (simp_all add: mult_2_right)
  have two: "open_writes G h 2
           (map Some (d @ replicate G 1) @ replicate G None,
            map Some (r @ np_arange 1 (G * 3) 3) @ replicate G None,
            map Some (c @ replicate G h) @ replicate G None) =
     Inr (map Some (d @ replicate G 1 @ replicate G 1),
          map Some (r @ np_arange 1 (G * 3) 3 @ np_arange 2 (G * 3) 3),
          map Some (c @ replicate G h @ replicate G h))"
    using assms by (subst open_writes_eq) (simp_all add: length_np_arange)
  show ?thesis
    by (simp only: for_actions.simps one two bind_err_Inr)
qed

subsection \<open>The reward vector\<close>

lemma map2_replicate_left: "map2 f (replicate (length vs) x) vs = map (f x) vs"
  by (induction vs) simp_all

lemma initialised_map_Some [simp]: "initialised (map Some xs) = Inr xs"
  by (auto simp: initialised_def comp_def)

lemma reward_vector_eq:
  "reward_vector grid =
     Inr (concat (map (\<lambda>b. [cost, penalty * (1 - b) + reward * b,
                              reward * (1 - b) + penalty * b]) grid))"
proof -
  let ?ol = "\<lambda>b::real. penalty * (1 - b) + reward * b"
  let ?or = "\<lambda>b::real. reward * (1 - b) + penalty * b"
  have e0: "np_empty2 (length grid) num_actions
              = replicate (length grid) [None, None, None :: real option]"
    by (simp add: np_empty2_def np_empty_def num_actions_def numeral_3_eq_3)
  have e1: "fill_col (replicate (length grid) [None, None, None :: real option]) 0 cost
              = Inr (replicate (length grid) [Some cost, None, None])"
    by (simp add: fill_col_def)
  have e2: "set_col (replicate (length grid) [Some cost, None, None]) 1 (map ?ol grid)
              = Inr (map (\<lambda>b. [Some cost, Some (?ol b), None]) grid)"
    using map2_replicate_left [of "\<lambda>r w. r[1 := Some w]" "map ?ol grid" "[Some cost, None, None]"]
    by (simp add: set_col_def comp_def)
  have e3: "set_col (map (\<lambda>b. [Some cost, Some (?ol b), None]) grid) 2 (map ?or grid)
              = Inr (map (\<lambda>b. [Some cost, Some (?ol b), Some (?or b)]) grid)"
    by (auto simp: set_col_def zip_map_map zip_same_conv_map comp_def numeral_2_eq_2)
  have e4: "concat (map (\<lambda>b. [Some cost, Some (?ol b), Some (?or b)]) grid)
              = map Some (concat (map (\<lambda>b. [cost, ?ol b, ?or b]) grid))"
    by (simp add: map_concat comp_def)
  show ?thesis
    unfolding reward_vector_def Let_def
    by (simp only: e0 e1 e2 e3 e4 bind_err_Inr initialised_map_Some)
qed

subsection \<open>\<open>argmin\<close> and the range of \<open>nearest_idx\<close>\<close>

lemma length_takeWhile_less_length:
  "x \<in> set xs \<Longrightarrow> \<not> P x \<Longrightarrow> length (takeWhile P xs) < length xs"
  by (induction xs) auto

lemma np_argmin_props:
  assumes "xs \<noteq> []"
  shows "\<exists>j. np_argmin xs = Inr j \<and> j < length xs \<and> xs ! j = Min (set xs)
             \<and> (\<forall>i<j. xs ! i \<noteq> Min (set xs))"
proof -
  let ?j = "length (takeWhile (\<lambda>x. x \<noteq> Min (set xs)) xs)"
  have "Min (set xs) \<in> set xs"
    using assms by (intro Min_in) simp_all
  then have lt: "?j < length xs"
    by (rule length_takeWhile_less_length) simp
  then have "xs ! ?j = Min (set xs)"
    using nth_length_takeWhile [of "\<lambda>x. x \<noteq> Min (set xs)" xs] by simp
  moreover have "\<forall>i<?j. xs ! i \<noteq> Min (set xs)"
    using nth_mem [of _ "takeWhile (\<lambda>x. x \<noteq> Min (set xs)) xs"]
    by (metis (mono_tags, lifting) set_takeWhileD takeWhile_nth)
  ultimately show ?thesis
    using assms lt by (simp add: np_argmin_def)
qed

lemma nearest_idx_less: "grid \<noteq> [] \<Longrightarrow> nearest_idx grid v < length grid"
proof -
  assume "grid \<noteq> []"
  have "nearest_idx grid v \<le> length (mid_points grid)"
    by (simp add: nearest_idx_def np_searchsorted_def)
  also have "\<dots> = length grid - 1"
    by (simp add: mid_points_def)
  finally show ?thesis
    using \<open>grid \<noteq> []\<close> by (cases grid) simp_all
qed

subsection \<open>What \<open>tiger_mdp\<close> returns\<close>

lemma segment_zip:
  assumes "a < 3" and "length cs = G" and "length ds = G"
  shows "zip (np_arange a (G * 3) 3) (zip cs ds) = map (\<lambda>k. (a + k * 3, cs ! k, ds ! k)) [0..<G]"
  using assms by (simp add: list_eq_iff_nth_eq length_np_arange nth_np_arange)

lemma segment_zip_replicate:
  assumes "a < 3"
  shows "zip (np_arange a (G * 3) 3) (replicate G p) = map (\<lambda>k. (a + k * 3, p)) [0..<G]"
  using assms by (simp add: list_eq_iff_nth_eq length_np_arange nth_np_arange)

lemma np_arange_less: "a < 3 \<Longrightarrow> r \<in> set (np_arange a (G * 3) 3) \<Longrightarrow> r < G * 3"
  by (auto simp: np_arange_map)

lemma triplets_assembled:
  fixes grid :: "real list"
  defines "G \<equiv> length grid"
  shows "zip (np_arange 0 (G * 3) 3 @ np_arange 0 (G * 3) 3
              @ np_arange 1 (G * 3) 3 @ np_arange 2 (G * 3) 3)
          (zip (map (\<lambda>b. nearest_idx grid (bayes_update_TL b default_noise default_noise)) grid
                @ map (\<lambda>b. nearest_idx grid (bayes_update_TR b default_noise default_noise)) grid
                @ replicate G h @ replicate G h)
               (map (\<lambda>b. prob_TL b default_noise default_noise) grid
                @ map (\<lambda>b. prob_TR b default_noise default_noise) grid
                @ replicate G 1 @ replicate G 1))
         = assembled grid h"
  by (simp add: G_def length_np_arange segment_zip segment_zip_replicate assembled_def)

lemma tiger_mdp_eq:
  assumes h: "np_argmin (map (\<lambda>b. \<bar>b - 1 / 2\<bar>) grid) = Inr h" and "h < length grid"
  shows "\<exists>Q. tiger_mdp grid beta =
           Inr \<lparr>dp_R = concat (map (\<lambda>b. [cost, penalty * (1 - b) + reward * b,
                                            reward * (1 - b) + penalty * b]) grid),
                dp_Q = sum_duplicates Q, dp_beta = beta,
                dp_s_indices = np_repeat (np_arange 0 (length grid) 1) num_actions,
                dp_a_indices = np_tile (np_arange 0 num_actions 1) (length grid)\<rparr>
         \<and> triplets Q = assembled grid h
         \<and> coo_shape Q = (length grid * num_actions, length grid)"
proof -
  let ?G = "length grid"
  let ?d = "map (\<lambda>b. prob_TL b default_noise default_noise) grid
            @ map (\<lambda>b. prob_TR b default_noise default_noise) grid"
  let ?r = "np_arange 0 (?G * 3) 3 @ np_arange 0 (?G * 3) 3"
  let ?c = "map (\<lambda>b. nearest_idx grid (bayes_update_TL b default_noise default_noise)) grid
            @ map (\<lambda>b. nearest_idx grid (bayes_update_TR b default_noise default_noise)) grid"
  let ?data = "?d @ replicate ?G 1 @ replicate ?G 1"
  let ?row = "?r @ np_arange 1 (?G * 3) 3 @ np_arange 2 (?G * 3) 3"
  let ?col = "?c @ replicate ?G h @ replicate ?G h"
  let ?Q = "\<lparr>coo_shape = (?G * num_actions, ?G), coo_data = ?data, coo_row = ?row,
             coo_col = ?col\<rparr>"
  have ne: "grid \<noteq> []"
    using assms(2) by auto
  have listen: "listen_writes grid
           (np_empty (?G * (num_actions + 1)), np_empty (?G * (num_actions + 1)),
            np_empty (?G * (num_actions + 1)))
         = Inr (map Some ?d @ replicate (?G * 2) None, map Some ?r @ replicate (?G * 2) None,
                map Some ?c @ replicate (?G * 2) None)"
    by (simp add: np_empty_def num_actions_def listen_writes_eq)
  have loop: "for_actions [1, 2] (open_writes ?G h)
           (map Some ?d @ replicate (?G * 2) None, map Some ?r @ replicate (?G * 2) None,
            map Some ?c @ replicate (?G * 2) None)
         = Inr (map Some ?data, map Some ?row, map Some ?col)"
    using for_actions_open_writes [of ?d ?G ?r ?c h]
    by (simp add: length_np_arange mult_2_right)
  have rows: "\<not> (\<exists>r \<in> set ?row. ?G * num_actions \<le> r)"
    using np_arange_less [of 0 _ ?G] np_arange_less [of 1 _ ?G] np_arange_less [of 2 _ ?G]
    by (auto simp: num_actions_def not_le)
  have cols: "\<not> (\<exists>c \<in> set ?col. ?G \<le> c)"
    using nearest_idx_less [OF ne] assms(2) by (auto simp: not_le)
  have coo: "coo_matrix ?data ?row ?col (?G * num_actions, ?G) = Inr ?Q"
    unfolding coo_matrix_def using rows cols
    by (simp add: length_np_arange)
  have "tiger_mdp grid beta =
           Inr \<lparr>dp_R = concat (map (\<lambda>b. [cost, penalty * (1 - b) + reward * b,
                                            reward * (1 - b) + penalty * b]) grid),
                dp_Q = sum_duplicates ?Q, dp_beta = beta,
                dp_s_indices = np_repeat (np_arange 0 (length grid) 1) num_actions,
                dp_a_indices = np_tile (np_arange 0 num_actions 1) (length grid)\<rparr>"
    unfolding tiger_mdp_def Let_def
    by (simp only: reward_vector_eq listen h loop bind_err_Inr prod.case
          initialised_map_Some coo)
  moreover have "triplets ?Q = assembled grid h"
    using triplets_assembled [of grid h] by (simp add: triplets_def)
  ultimately show ?thesis
    by (intro exI [of _ ?Q]) simp
qed

subsection \<open>Merging duplicate entries\<close>

lemma zip3_map: "zip (map f xs) (zip (map g xs) (map h xs)) = map (\<lambda>x. (f x, g x, h x)) xs"
  by (induction xs) simp_all




lemma sum_list_map_mset_cong:
  fixes f :: "'a \<Rightarrow> real"
  shows "mset xs = mset ys \<Longrightarrow> sum_list (map f xs) = sum_list (map f ys)"
  by (metis mset_map sum_mset_sum_list)




subsection \<open>The entries of one row before merging\<close>

lemma filter_upt_eq: "g < n \<Longrightarrow> filter (\<lambda>k. k = g) [0..<n] = [g]"
  by (induction n) (auto simp: less_Suc_eq)

lemma segment_row:
  fixes c :: "nat \<Rightarrow> nat" and d :: "nat \<Rightarrow> real"
  assumes "g < n" and "a < 3" and "a' < 3"
  shows "filter (\<lambda>(r, c, d). r = g * 3 + a') (map (\<lambda>k. (a + k * 3, c k, d k)) [0..<n])
           = (if a = a' then [(a + g * 3, c g, d g)] else [])"
proof -
  have eq: "(a + k * 3 = g * 3 + a') = (a = a' \<and> k = g)" for k
    using assms(2,3) by arith
  show ?thesis
    using assms(1) by (simp add: filter_map comp_def eq filter_upt_eq)
qed


subsection \<open>Mid points and counting\<close>

lemma length_mid_points: "length (mid_points grid) = length grid - 1"
  by (simp add: mid_points_def)

lemma nth_mid_points:
  "i + 1 < length grid \<Longrightarrow> mid_points grid ! i = (grid ! i + grid ! (i + 1)) / 2"
  by (simp add: mid_points_def nth_butlast nth_tl)

lemma count_below:
  assumes "k \<le> length xs" and "\<And>i. i < length xs \<Longrightarrow> P (xs ! i) = (i < k)"
  shows "length (filter P xs) = k"
proof -
  have "\<forall>x \<in> set (take k xs). P x"
    using assms by (auto simp: in_set_conv_nth)
  then have 1: "filter P (take k xs) = take k xs"
    by simp
  have "\<forall>x \<in> set (drop k xs). \<not> P x"
    using assms by (auto simp: in_set_conv_nth)
  then have 2: "filter P (drop k xs) = []"
    by simp
  have "filter P xs = filter P (take k xs) @ filter P (drop k xs)"
    by (metis append_take_drop_id filter_append)
  then show ?thesis
    using assms(1) by (simp add: 1 2)
qed

subsection \<open>Facts shared by the claims about \<open>tiger_mdp\<close>\<close>

lemma prob_half_idx_exists:
  assumes "grid \<noteq> []"
  shows "\<exists>h. np_argmin (map (\<lambda>b. \<bar>b - 1 / 2\<bar>) grid) = Inr h \<and> h < length grid
           \<and> (\<forall>k<length grid. \<bar>grid ! h - 1 / 2\<bar> \<le> \<bar>grid ! k - 1 / 2\<bar>)
           \<and> (\<forall>k<h. \<bar>grid ! h - 1 / 2\<bar> < \<bar>grid ! k - 1 / 2\<bar>)"
proof -
  let ?xs = "map (\<lambda>b. \<bar>b - 1 / 2\<bar>) grid"
  obtain h where h: "np_argmin ?xs = Inr h" "h < length ?xs" "?xs ! h = Min (set ?xs)"
    "\<forall>i<h. ?xs ! i \<noteq> Min (set ?xs)"
    using np_argmin_props [of ?xs] assms by auto
  have le: "?xs ! h \<le> ?xs ! k" if "k < length grid" for k
    using h(3) that by (metis List.finite_set Min_le length_map nth_mem)
  then have "\<forall>k<length grid. \<bar>grid ! h - 1 / 2\<bar> \<le> \<bar>grid ! k - 1 / 2\<bar>"
    using h(2) by simp
  moreover have "\<bar>grid ! h - 1 / 2\<bar> < \<bar>grid ! k - 1 / 2\<bar>" if "k < h" for k
  proof -
    have "?xs ! k \<noteq> ?xs ! h" and "?xs ! h \<le> ?xs ! k"
      using h(2,3,4) that le [of k] by simp_all
    then show ?thesis
      using h(2) that by simp
  qed
  ultimately show ?thesis
    using h(1,2) by auto
qed




lemma set_coo_col_sum_duplicates:
  "set (coo_col (sum_duplicates M)) = (\<lambda>(r, c, d). c) ` set (triplets M)"
  by (force simp: sum_duplicates_def Let_def image_iff)

lemma assembled_cols:
  assumes "grid \<noteq> []" and "h < length grid" and "(r, c, d) \<in> set (assembled grid h)"
  shows "c < length grid"
  using assms nearest_idx_less [OF assms(1)] by (auto simp: assembled_def)







subsection \<open>Rounding: error bound and monotonicity\<close>

lemma ilog2_lower: "0 < x \<Longrightarrow> power_int 2 (ilog2 x) \<le> x"
proof (induction x rule: ilog2.induct)
  case (1 x)
  show ?case
  proof (cases "2 \<le> x")
    case True
    then have "power_int 2 (ilog2 (x / 2)) \<le> x / 2"
      using 1 by simp
    moreover have "ilog2 x = ilog2 (x / 2) + 1"
      using True by (subst ilog2.simps) simp
    ultimately show ?thesis
      by (simp add: power_int_add)
  next
    case False
    show ?thesis
    proof (cases "x < 1")
      case True
      then have "power_int 2 (ilog2 (x * 2)) \<le> x * 2"
        using 1 False by simp
      moreover have "ilog2 x = ilog2 (x * 2) - 1"
        using True False 1(3) by (subst ilog2.simps) simp
      ultimately show ?thesis
        by (simp add: power_int_diff)
    next
      case one: False
      then have "ilog2 x = 0"
        using False 1(3) by (subst ilog2.simps) simp
      then show ?thesis
        using one by simp
    qed
  qed
qed

lemma ilog2_upper: "0 < x \<Longrightarrow> x < power_int 2 (ilog2 x + 1)"
proof (induction x rule: ilog2.induct)
  case (1 x)
  show ?case
  proof (cases "2 \<le> x")
    case True
    then have "x / 2 < power_int 2 (ilog2 (x / 2) + 1)"
      using 1 by simp
    moreover have "ilog2 x = ilog2 (x / 2) + 1"
      using True by (subst ilog2.simps) simp
    ultimately show ?thesis
      by (simp add: power_int_add)
  next
    case False
    show ?thesis
    proof (cases "x < 1")
      case True
      then have "x * 2 < power_int 2 (ilog2 (x * 2) + 1)"
        using 1 False by simp
      moreover have "ilog2 x = ilog2 (x * 2) - 1"
        using True False 1(3) by (subst ilog2.simps) simp
      ultimately show ?thesis
        by (simp add: power_int_add)
    next
      case one: False
      then have "ilog2 x = 0"
        using False 1(3) by (subst ilog2.simps) simp
      then show ?thesis
        using False by simp
    qed
  qed
qed

lemma power_int_two_less_imp: "power_int (2::real) m < power_int 2 n \<Longrightarrow> m < n"
  using power_int_increasing [of n m "2::real"] by (cases "m < n") auto

lemma ilog2_unique:
  assumes "power_int 2 k \<le> x" and "x < power_int 2 (k + 1)"
  shows "ilog2 x = k"
proof -
  have pos: "0 < x"
    using assms(1) zero_less_power_int [of "2::real" k] by linarith
  have "power_int (2::real) k < power_int 2 (ilog2 x + 1)"
    using assms(1) ilog2_upper [OF pos] by linarith
  moreover have "power_int (2::real) (ilog2 x) < power_int 2 (k + 1)"
    using assms(2) ilog2_lower [OF pos] by linarith
  ultimately have "k < ilog2 x + 1" and "ilog2 x < k + 1"
    by (auto dest: power_int_two_less_imp)
  then show ?thesis by simp
qed

lemma ilog2_mono:
  assumes "0 < x" and "x \<le> y"
  shows "ilog2 x \<le> ilog2 y"
proof -
  have "power_int (2::real) (ilog2 x) < power_int 2 (ilog2 y + 1)"
    using ilog2_lower [OF assms(1)] ilog2_upper [of y] assms by linarith
  then show ?thesis
    by (auto dest: power_int_two_less_imp)
qed

lemma ilog2_double: "0 < x \<Longrightarrow> ilog2 (2 * x) = ilog2 x + 1"
proof -
  assume x: "0 < x"
  have "power_int 2 (ilog2 x + 1) \<le> 2 * x"
    using ilog2_lower [OF x] by (simp add: power_int_add)
  moreover have "2 * x < power_int 2 (ilog2 x + 1 + 1)"
    using ilog2_upper [OF x] by (simp add: power_int_add)
  ultimately show ?thesis
    by (rule ilog2_unique)
qed

lemma round_half_even_error: "\<bar>of_int (round_half_even y) - y\<bar> \<le> 1 / 2"
proof -
  have "of_int \<lfloor>y\<rfloor> \<le> y" and "y < of_int \<lfloor>y\<rfloor> + 1"
    by linarith+
  then show ?thesis
    unfolding round_half_even_def Let_def by (simp add: abs_le_iff)
qed

lemma round_half_even_of_int [simp]: "round_half_even (of_int n) = n"
  by (simp add: round_half_even_def)

lemma round_half_even_ge: "of_int n \<le> y \<Longrightarrow> n \<le> round_half_even y"
proof -
  assume "of_int n \<le> y"
  then have "n \<le> \<lfloor>y\<rfloor>"
    by (simp add: le_floor_iff)
  then show ?thesis
    by (simp add: round_half_even_def Let_def)
qed

lemma round_half_even_le: "y \<le> of_int n \<Longrightarrow> round_half_even y \<le> n"
proof (cases "y = of_int n")
  case True
  then show ?thesis by simp
next
  case False
  assume "y \<le> of_int n"
  with False have "y < of_int n" by simp
  then have "\<lfloor>y\<rfloor> < n"
    by (simp add: floor_less_iff)
  then show ?thesis
    by (simp add: round_half_even_def Let_def)
qed

lemma fl64_pos_eq:
  "x \<noteq> 0 \<Longrightarrow> fl64 x = of_int (round_half_even (x / power_int 2 (expo64 x))) * power_int 2 (expo64 x)"
  by (simp add: fl64_def)

lemma fl64_error:
  assumes "\<bar>x\<bar> \<le> 4"
  shows "\<bar>fl64 x - x\<bar> \<le> 1 / 2 ^ 51"
proof (cases "x = 0")
  case True
  then show ?thesis by (simp add: fl64_def)
next
  case False
  define e where "e = expo64 x"
  define y where "y = x / power_int 2 e"
  have "power_int 2 (ilog2 \<bar>x\<bar>) \<le> \<bar>x\<bar>"
    using False by (intro ilog2_lower) simp
  also have "\<bar>x\<bar> < power_int 2 (3::int)"
    using assms by simp
  finally have "ilog2 \<bar>x\<bar> < 3"
    by (rule power_int_le_imp_less_exp [rotated]) simp_all
  then have "e \<le> - 50"
    by (simp add: e_def expo64_def)
  then have pe: "power_int (2::real) e \<le> power_int 2 (- 50)"
    by (intro power_int_increasing) simp_all
  have pos: "0 < power_int (2::real) e"
    by simp
  have "fl64 x - x = (of_int (round_half_even y) - y) * power_int 2 e"
    using False pos by (simp add: fl64_def e_def [symmetric] y_def algebra_simps)
  then have "\<bar>fl64 x - x\<bar> = \<bar>of_int (round_half_even y) - y\<bar> * power_int 2 e"
    using pos by (simp add: abs_mult)
  also have "\<dots> \<le> (1 / 2) * power_int 2 (- 50)"
    using round_half_even_error [of y] pe pos by (intro mult_mono) simp_all
  also have "\<dots> = 1 / 2 ^ 51"
    by (simp add: power_int_minus_divide)
  finally show ?thesis .
qed

lemma expo64_mono:
  assumes "0 < x" and "x \<le> y"
  shows "expo64 x \<le> expo64 y"
  using ilog2_mono [of x y] assms by (simp add: expo64_def)

lemma fl64_nonneg: "0 \<le> x \<Longrightarrow> 0 \<le> fl64 x"
proof (cases "x = 0")
  case True
  then show ?thesis by (simp add: fl64_def)
next
  case False
  assume "0 \<le> x"
  then have "of_int 0 \<le> x / power_int 2 (expo64 x)"
    by simp
  then have "0 \<le> round_half_even (x / power_int 2 (expo64 x))"
    by (rule round_half_even_ge)
  then show ?thesis
    using False by (simp add: fl64_pos_eq)
qed

lemma fl64_ge_double:
  assumes "0 < d" and "fl64 d = d" and "d \<le> x"
  shows "d \<le> fl64 x"
proof -
  have x: "0 < x" using assms by simp
  define ed where "ed = expo64 d"
  define ex where "ex = expo64 x"
  define nd where "nd = round_half_even (d / power_int 2 ed)"
  define nx where "nx = round_half_even (x / power_int 2 ex)"
  have d_eq: "d = of_int nd * power_int 2 ed"
    using assms(1,2) by (simp add: fl64_pos_eq nd_def ed_def)
  have fx: "fl64 x = of_int nx * power_int 2 ex"
    using x by (simp add: fl64_pos_eq nx_def ex_def)
  have le: "ed \<le> ex"
    unfolding ed_def ex_def using assms(1,3) by (rule expo64_mono)
  have pe: "0 < power_int (2::real) ex"
    by simp
  show ?thesis
  proof (cases "ed = ex")
    case True
    have "of_int nd = d / power_int 2 ex"
      using d_eq True by simp
    also have "\<dots> \<le> x / power_int 2 ex"
      using assms(3) pe by (simp add: divide_right_mono)
    finally have "nd \<le> nx"
      unfolding nx_def by (rule round_half_even_ge)
    then have "of_int nd * power_int (2::real) ex \<le> of_int nx * power_int 2 ex"
      using pe by (simp add: mult_right_mono)
    then show ?thesis
      using d_eq True fx by simp
  next
    case False
    then have lt: "ed < ex" using le by simp
    have absd: "\<bar>d\<bar> = d" and absx: "\<bar>x\<bar> = x"
      using assms(1) x by simp_all
    have ex_eq: "ex = ilog2 x - 52" and kd: "ilog2 d + 1 \<le> ilog2 x"
      using lt unfolding ed_def ex_def expo64_def absd absx by linarith+
    have "d < power_int 2 (ilog2 d + 1)"
      using assms(1) by (rule ilog2_upper)
    also have "\<dots> \<le> power_int 2 (ilog2 x)"
      using kd by (intro power_int_increasing) simp_all
    finally have d_lt: "d < power_int 2 (ilog2 x)" .
    have "power_int (2::real) (52 + ex) = power_int 2 52 * power_int 2 ex"
      by (rule power_int_add) simp
    moreover have "ilog2 x = 52 + ex"
      using ex_eq by simp
    ultimately have split: "power_int (2::real) (ilog2 x) = of_int (2 ^ 52) * power_int 2 ex"
      by simp
    have "of_int (2 ^ 52) = power_int (2::real) (ilog2 x) / power_int 2 ex"
      using split by simp
    also have "\<dots> \<le> x / power_int 2 ex"
      using ilog2_lower [OF x] pe by (simp add: divide_right_mono)
    finally have "2 ^ 52 \<le> nx"
      unfolding nx_def by (rule round_half_even_ge)
    then have "of_int (2 ^ 52) * power_int (2::real) ex \<le> of_int nx * power_int 2 ex"
      using pe by (intro mult_right_mono) simp_all
    then show ?thesis
      using d_lt split fx by linarith
  qed
qed

lemma fl64_le_double:
  assumes "0 < x" and "fl64 d = d" and "x \<le> d"
  shows "fl64 x \<le> d"
proof -
  have d: "0 < d" using assms by simp
  define ed where "ed = expo64 d"
  define ex where "ex = expo64 x"
  define nd where "nd = round_half_even (d / power_int 2 ed)"
  define nx where "nx = round_half_even (x / power_int 2 ex)"
  have d_eq: "d = of_int nd * power_int 2 ed"
    using d assms(2) by (simp add: fl64_pos_eq nd_def ed_def)
  have fx: "fl64 x = of_int nx * power_int 2 ex"
    using assms(1) by (simp add: fl64_pos_eq nx_def ex_def)
  have le: "ex \<le> ed"
    unfolding ed_def ex_def using assms(1,3) by (rule expo64_mono)
  have pe: "0 < power_int (2::real) ex"
    by simp
  show ?thesis
  proof (cases "ex = ed")
    case True
    have "x / power_int 2 ex \<le> d / power_int 2 ex"
      using assms(3) pe by (simp add: divide_right_mono)
    also have "\<dots> = of_int nd"
      using d_eq True by simp
    finally have "nx \<le> nd"
      unfolding nx_def by (rule round_half_even_le)
    then have "of_int nx * power_int (2::real) ex \<le> of_int nd * power_int 2 ex"
      using pe by (simp add: mult_right_mono)
    then show ?thesis
      using d_eq True fx by simp
  next
    case False
    then have lt: "ex < ed" using le by simp
    have absd: "\<bar>d\<bar> = d" and absx: "\<bar>x\<bar> = x"
      using assms(1) d by simp_all
    have ed_eq: "ed = ilog2 d - 52" and kx: "ilog2 x - 52 \<le> ex" and e1: "ex + 53 \<le> ilog2 d"
      using lt unfolding ed_def ex_def expo64_def absd absx by linarith+
    have "x < power_int 2 (ilog2 x + 1)"
      using assms(1) by (rule ilog2_upper)
    also have "\<dots> \<le> power_int 2 (ex + 53)"
      using kx by (intro power_int_increasing) simp_all
    also have "\<dots> = of_int (2 ^ 53) * power_int 2 ex"
      by (simp add: power_int_add)
    finally have "x / power_int 2 ex \<le> of_int (2 ^ 53)"
      using pe by (simp add: field_simps)
    then have "nx \<le> 2 ^ 53"
      unfolding nx_def by (rule round_half_even_le)
    then have "of_int nx * power_int (2::real) ex \<le> of_int (2 ^ 53) * power_int 2 ex"
      using pe by (intro mult_right_mono) simp_all
    also have "\<dots> = power_int 2 (ex + 53)"
      by (simp add: power_int_add)
    also have "\<dots> \<le> power_int 2 (ilog2 d)"
      using e1 by (intro power_int_increasing) simp_all
    also have "\<dots> \<le> d"
      using d by (rule ilog2_lower)
    finally show ?thesis
      using fx by simp
  qed
qed

lemma fl64_double:
  assumes "0 < x" and "fl64 x = x"
  shows "fl64 (2 * x) = 2 * x"
proof -
  define e where "e = expo64 x"
  define n where "n = round_half_even (x / power_int 2 e)"
  have x_eq: "x = of_int n * power_int 2 e"
    using assms by (simp add: fl64_pos_eq n_def e_def)
  have absx: "\<bar>x\<bar> = x" using assms(1) by simp
  have cases: "expo64 (2 * x) = e + 1 \<or> expo64 (2 * x) = e"
    using assms(1) by (simp add: expo64_def e_def absx ilog2_double max_def)
  have two: "2 * x \<noteq> 0" using assms(1) by simp
  from cases show ?thesis
  proof
    assume e': "expo64 (2 * x) = e + 1"
    have q: "2 * x / power_int 2 (e + 1) = of_int n"
      using x_eq by (simp add: power_int_add)
    have "fl64 (2 * x)
            = of_int (round_half_even (2 * x / power_int 2 (e + 1))) * power_int 2 (e + 1)"
      using fl64_pos_eq [OF two] e' by simp
    also have "\<dots> = of_int n * power_int 2 (e + 1)"
      by (simp only: q round_half_even_of_int)
    also have "\<dots> = 2 * x"
      by (subst x_eq) (simp add: power_int_add)
    finally show ?thesis .
  next
    assume e': "expo64 (2 * x) = e"
    have q: "2 * x / power_int 2 e = of_int (2 * n)"
      using x_eq by simp
    have "fl64 (2 * x) = of_int (round_half_even (2 * x / power_int 2 e)) * power_int 2 e"
      using fl64_pos_eq [OF two] e' by simp
    also have "\<dots> = of_int (2 * n) * power_int 2 e"
      by (simp only: q round_half_even_of_int)
    also have "\<dots> = 2 * x"
      by (subst x_eq) simp
    finally show ?thesis .
  qed
qed

subsection \<open>The observation probabilities in float64\<close>

lemma mul64_error:
  assumes "\<bar>a - a0\<bar> \<le> ea" and "\<bar>c - c0\<bar> \<le> ec" and "\<bar>a0\<bar> \<le> 1" and "\<bar>c0\<bar> \<le> 1"
    and "ea \<le> 1" and "ec \<le> 1"
  shows "\<bar>mul64 a c - a0 * c0\<bar> \<le> 2 * ea + ec + 1 / 2 ^ 51"
proof -
  have a: "\<bar>a\<bar> \<le> 2" and c: "\<bar>c\<bar> \<le> 2"
    using assms by linarith+
  have "\<bar>a * c\<bar> \<le> 2 * 2"
    unfolding abs_mult using a c by (intro mult_mono) simp_all
  then have r: "\<bar>mul64 a c - a * c\<bar> \<le> 1 / 2 ^ 51"
    unfolding mul64_def by (intro fl64_error) simp
  have "a * c - a0 * c0 = (a - a0) * c + a0 * (c - c0)"
    by (simp add: algebra_simps)
  then have "\<bar>a * c - a0 * c0\<bar> \<le> \<bar>a - a0\<bar> * \<bar>c\<bar> + \<bar>a0\<bar> * \<bar>c - c0\<bar>"
    by (metis abs_mult abs_triangle_ineq)
  also have "\<dots> \<le> ea * 2 + 1 * ec"
  proof -
    have "0 \<le> ea"
      using assms(1) by linarith
    then show ?thesis
      using assms(1-4) c by (intro add_mono mult_mono) simp_all
  qed
  finally show ?thesis
    using r by linarith
qed

lemma add64_error:
  assumes "\<bar>a - a0\<bar> \<le> ea" and "\<bar>c - c0\<bar> \<le> ec" and "\<bar>a0 + c0\<bar> \<le> 2" and "ea + ec \<le> 2"
  shows "\<bar>add64 a c - (a0 + c0)\<bar> \<le> ea + ec + 1 / 2 ^ 51"
proof -
  have "\<bar>a + c\<bar> \<le> 4"
    using assms by linarith
  then have "\<bar>add64 a c - (a + c)\<bar> \<le> 1 / 2 ^ 51"
    unfolding add64_def by (rule fl64_error)
  then show ?thesis
    using assms(1,2) by linarith
qed

lemma sub64_one_error:
  assumes "0 \<le> p" and "p \<le> 1"
  shows "\<bar>sub64 1 p - (1 - p)\<bar> \<le> 1 / 2 ^ 51"
  unfolding sub64_def using assms by (intro fl64_error) simp

lemma unit_product:
  fixes x y :: real
  assumes "0 \<le> x" "x \<le> 1" "0 \<le> y" "y \<le> 1"
  shows "0 \<le> x * y" and "x * y \<le> 1"
  using assms by (simp_all add: mult_le_one)

lemma prob_TL64_error:
  assumes "b \<in> {0..1}" and "pL \<in> {0..1}" and "pR \<in> {0..1}"
  shows "\<bar>prob_TL64 b pL pR - prob_TL b pL pR\<bar> \<le> 6 / 2 ^ 51"
proof -
  have b: "0 \<le> b" "b \<le> 1" and pL: "0 \<le> pL" "pL \<le> 1" and pR: "0 \<le> pR" "pR \<le> 1"
    using assms by simp_all
  have small: "(1::real) / 2 ^ 51 \<le> 1 / 4"
    by simp
  have p1: "0 \<le> (1 - pL) * (1 - b)" "(1 - pL) * (1 - b) \<le> 1"
    using unit_product [of "1 - pL" "1 - b"] b pL by simp_all
  have p2: "0 \<le> pR * b" "pR * b \<le> 1"
    using unit_product [of pR b] b pR by simp_all
  have m1: "\<bar>mul64 (sub64 1 pL) (sub64 1 b) - (1 - pL) * (1 - b)\<bar>
              \<le> 2 * (1 / 2 ^ 51) + 1 / 2 ^ 51 + 1 / 2 ^ 51"
    using sub64_one_error [OF pL] sub64_one_error [OF b] b pL small
    by (intro mul64_error) simp_all
  have m2: "\<bar>mul64 pR b - pR * b\<bar> \<le> 2 * 0 + 0 + 1 / 2 ^ 51"
    using b pR by (intro mul64_error) simp_all
  have "\<bar>add64 (mul64 (sub64 1 pL) (sub64 1 b)) (mul64 pR b)
          - ((1 - pL) * (1 - b) + pR * b)\<bar>
          \<le> (2 * (1 / 2 ^ 51) + 1 / 2 ^ 51 + 1 / 2 ^ 51) + (2 * 0 + 0 + 1 / 2 ^ 51) + 1 / 2 ^ 51"
    using m1 m2 p1 p2 small by (intro add64_error) simp_all
  then show ?thesis
    by (simp add: prob_TL64_def prob_TL_def)
qed

lemma prob_TR64_error:
  assumes "b \<in> {0..1}" and "pL \<in> {0..1}" and "pR \<in> {0..1}"
  shows "\<bar>prob_TR64 b pL pR - prob_TR b pL pR\<bar> \<le> 6 / 2 ^ 51"
proof -
  have b: "0 \<le> b" "b \<le> 1" and pL: "0 \<le> pL" "pL \<le> 1" and pR: "0 \<le> pR" "pR \<le> 1"
    using assms by simp_all
  have small: "(1::real) / 2 ^ 51 \<le> 1 / 4"
    by simp
  have p1: "0 \<le> pL * (1 - b)" "pL * (1 - b) \<le> 1"
    using unit_product [of pL "1 - b"] b pL by simp_all
  have p2: "0 \<le> (1 - pR) * b" "(1 - pR) * b \<le> 1"
    using unit_product [of "1 - pR" b] b pR by simp_all
  have m1: "\<bar>mul64 pL (sub64 1 b) - pL * (1 - b)\<bar> \<le> 2 * 0 + 1 / 2 ^ 51 + 1 / 2 ^ 51"
    using sub64_one_error [OF b] b pL small by (intro mul64_error) simp_all
  have m2: "\<bar>mul64 (sub64 1 pR) b - (1 - pR) * b\<bar> \<le> 2 * (1 / 2 ^ 51) + 0 + 1 / 2 ^ 51"
    using sub64_one_error [OF pR] b pR small by (intro mul64_error) simp_all
  have "\<bar>add64 (mul64 pL (sub64 1 b)) (mul64 (sub64 1 pR) b)
          - (pL * (1 - b) + (1 - pR) * b)\<bar>
          \<le> (2 * 0 + 1 / 2 ^ 51 + 1 / 2 ^ 51) + (2 * (1 / 2 ^ 51) + 0 + 1 / 2 ^ 51) + 1 / 2 ^ 51"
    using m1 m2 p1 p2 small by (intro add64_error) simp_all
  then show ?thesis
    by (simp add: prob_TR64_def prob_TR_def)
qed

lemma prob_sum_exact: "prob_TL b pL pR + prob_TR b pL pR = 1"
  by (simp add: prob_TL_def prob_TR_def algebra_simps)

lemma prob64_sum_error:
  assumes "b \<in> {0..1}" and "pL \<in> {0..1}" and "pR \<in> {0..1}"
  shows "\<bar>prob_TL64 b pL pR + prob_TR64 b pL pR - 1\<bar> \<le> 12 / 2 ^ 51"
    and "\<bar>add64 (prob_TL64 b pL pR) (prob_TR64 b pL pR) - 1\<bar> \<le> 13 / 2 ^ 51"
proof -
  have e: "\<bar>prob_TL64 b pL pR - prob_TL b pL pR\<bar> \<le> 6 / 2 ^ 51"
    "\<bar>prob_TR64 b pL pR - prob_TR b pL pR\<bar> \<le> 6 / 2 ^ 51"
    using assms by (rule prob_TL64_error prob_TR64_error)+
  show "\<bar>prob_TL64 b pL pR + prob_TR64 b pL pR - 1\<bar> \<le> 12 / 2 ^ 51"
    using e prob_sum_exact [of b pL pR] by linarith
  have "\<bar>add64 (prob_TL64 b pL pR) (prob_TR64 b pL pR) - (prob_TL b pL pR + prob_TR b pL pR)\<bar>
          \<le> 6 / 2 ^ 51 + 6 / 2 ^ 51 + 1 / 2 ^ 51"
    using e by (intro add64_error) (simp_all add: prob_sum_exact)
  then show "\<bar>add64 (prob_TL64 b pL pR) (prob_TR64 b pL pR) - 1\<bar> \<le> 13 / 2 ^ 51"
    by (simp add: prob_sum_exact)
qed

lemma noise64_value: "noise64 = 5404319552844595 / 2 ^ 55"
  by (simp add: noise64_def fl64_def expo64_def round_half_even_def Let_def ilog2.simps)

lemma noise64_unit: "noise64 \<in> {0..1}"
  by (simp add: noise64_value)

lemma prob64_quarter:
  "prob_TL64 (1 / 4) noise64 noise64 = 6079859496950169 / 2 ^ 53"
  "prob_TR64 (1 / 4) noise64 noise64 = 1463669878895411 / 2 ^ 52"
  by (simp_all add: prob_TL64_def prob_TR64_def noise64_def add64_def sub64_def mul64_def
      fl64_def expo64_def round_half_even_def Let_def ilog2.simps)

lemma prob64_positive:
  assumes "b \<in> {0..1}"
  shows "0 < prob_TL64 b noise64 noise64" and "0 < prob_TR64 b noise64 noise64"
proof -
  have "\<bar>prob_TL64 b noise64 noise64 - prob_TL b noise64 noise64\<bar> \<le> 6 / 2 ^ 51"
    and "\<bar>prob_TR64 b noise64 noise64 - prob_TR b noise64 noise64\<bar> \<le> 6 / 2 ^ 51"
    by (rule prob_TL64_error [OF assms noise64_unit noise64_unit],
        rule prob_TR64_error [OF assms noise64_unit noise64_unit])
  moreover have "1 / 10 \<le> prob_TL b noise64 noise64" and "1 / 10 \<le> prob_TR b noise64 noise64"
    using assms by (simp_all add: prob_TL_def prob_TR_def noise64_value field_simps)
  moreover have "(6::real) / 2 ^ 51 < 1 / 10"
    by simp
  ultimately show "0 < prob_TL64 b noise64 noise64" and "0 < prob_TR64 b noise64 noise64"
    by linarith+
qed

subsection \<open>Mid points in float64\<close>

lemma mid64_between:
  assumes "0 \<le> x" and "x \<le> y" and "fl64 x = x" and "fl64 y = y"
  shows "x \<le> fl64 (add64 x y / 2)" and "fl64 (add64 x y / 2) \<le> y"
proof -
  have "x \<le> fl64 (add64 x y / 2) \<and> fl64 (add64 x y / 2) \<le> y"
  proof (cases "y = 0")
    case True
    then have "x = 0" using assms(1,2) by simp
    then show ?thesis
      using True by (simp add: add64_def fl64_def)
  next
    case False
    then have y: "0 < y" using assms(1,2) by simp
    define s where "s = add64 x y"
    have s_le: "s \<le> 2 * y"
      unfolding s_def add64_def using y assms(1,2)
      by (intro fl64_le_double fl64_double assms(4)) simp_all
    have s_ge: "2 * x \<le> s" and s_pos: "0 < s"
    proof -
      show "2 * x \<le> s"
      proof (cases "x = 0")
        case True
        then show ?thesis
          using fl64_nonneg [of "x + y"] y by (simp add: s_def add64_def)
      next
        case False
        then have "0 < x" using assms(1) by simp
        then show ?thesis
          unfolding s_def add64_def using assms(2)
          by (intro fl64_ge_double fl64_double assms(3)) simp_all
      qed
      show "0 < s"
      proof (cases "x = 0")
        case True
        then show ?thesis
          using y assms(4) by (simp add: s_def add64_def)
      next
        case False
        then show ?thesis
          using \<open>2 * x \<le> s\<close> assms(1) by simp
      qed
    qed
    have upper: "fl64 (s / 2) \<le> y"
      using s_pos s_le by (intro fl64_le_double assms(4)) simp_all
    have lower: "x \<le> fl64 (s / 2)"
    proof (cases "x = 0")
      case True
      then show ?thesis
        using fl64_nonneg [of "s / 2"] s_pos by simp
    next
      case False
      then have "0 < x" using assms(1) by simp
      then show ?thesis
        using s_ge by (intro fl64_ge_double assms(3)) simp_all
    qed
    show ?thesis
      using upper lower by (simp add: s_def)
  qed
  then show "x \<le> fl64 (add64 x y / 2)" and "fl64 (add64 x y / 2) \<le> y"
    by simp_all
qed

lemma length_mid_points64: "length (mid_points64 grid) = length grid - 1"
  by (simp add: mid_points64_def)

lemma nth_mid_points64:
  "i + 1 < length grid \<Longrightarrow>
     mid_points64 grid ! i = fl64 (add64 (grid ! i) (grid ! (i + 1)) / 2)"
  by (simp add: mid_points64_def nth_butlast nth_tl)

lemma mid_points64_between:
  assumes "sorted_wrt (<) grid" and "set grid \<subseteq> {0..1}" and "list_all (\<lambda>x. fl64 x = x) grid"
    and "i + 1 < length grid"
  shows "grid ! i \<le> mid_points64 grid ! i" and "mid_points64 grid ! i \<le> grid ! (i + 1)"
proof -
  have i: "i < length grid" using assms(4) by simp
  have "grid ! i \<in> set grid" and "grid ! (i + 1) \<in> set grid"
    using assms(4) i by (simp_all del: One_nat_def)
  then have d: "fl64 (grid ! i) = grid ! i" "fl64 (grid ! (i + 1)) = grid ! (i + 1)"
    and nn: "0 \<le> grid ! i"
    using assms(2,3) by (auto simp: list_all_iff)
  have le: "grid ! i \<le> grid ! (i + 1)"
    using sorted_wrt_nth_less [OF assms(1), of i "i + 1"] assms(4) by simp
  show "grid ! i \<le> mid_points64 grid ! i" and "mid_points64 grid ! i \<le> grid ! (i + 1)"
    unfolding nth_mid_points64 [OF assms(4)]
    by (rule mid64_between [OF nn le d])+
qed

lemma fl64_grid5: "list_all (\<lambda>x. fl64 x = x) [0, 1 / 4, 1 / 2, 3 / 4, 1]"
  by (simp add: fl64_def expo64_def round_half_even_def Let_def ilog2.simps)

subsection \<open>What \<open>tiger_mdp64\<close> returns\<close>

lemma listen_writes64_eq:
  assumes "length data = length grid * 4" and "length row = length grid * 4"
    and "length col = length grid * 4"
  shows "listen_writes64 grid (data, row, col) =
     Inr (map Some (map (\<lambda>b. prob_TL64 b noise64 noise64) grid
                    @ map (\<lambda>b. prob_TR64 b noise64 noise64) grid)
            @ drop (length grid * 2) data,
          map Some (np_arange 0 (length grid * 3) 3 @ np_arange 0 (length grid * 3) 3)
            @ drop (length grid * 2) row,
          map Some (map (\<lambda>b. nearest_idx64 grid (bayes_update_TL64 b noise64 noise64)) grid
                    @ map (\<lambda>b. nearest_idx64 grid (bayes_update_TR64 b noise64 noise64)) grid)
            @ drop (length grid * 2) col)"
proof -
  have len: "length (np_arange 0 (length grid * 3) 3) = length grid"
    by (simp add: length_np_arange)
  show ?thesis
    unfolding listen_writes64_def Let_def num_actions_def
    by (simp only: prod.case bind_err_Inr length_map len
          set_slice_first [OF assms(1)] set_slice_first [OF assms(2)] set_slice_first [OF assms(3)]
          set_slice_second [OF assms(1)] set_slice_second [OF assms(2)]
          set_slice_second [OF assms(3)])
qed

lemma reward_vector64_eq:
  "reward_vector64 grid =
     Inr (concat (map (\<lambda>b. [cost, add64 (mul64 penalty (sub64 1 b)) (mul64 reward b),
                              add64 (mul64 reward (sub64 1 b)) (mul64 penalty b)]) grid))"
proof -
  let ?ol = "\<lambda>b::real. add64 (mul64 penalty (sub64 1 b)) (mul64 reward b)"
  let ?or = "\<lambda>b::real. add64 (mul64 reward (sub64 1 b)) (mul64 penalty b)"
  have e0: "np_empty2 (length grid) num_actions
              = replicate (length grid) [None, None, None :: real option]"
    by (simp add: np_empty2_def np_empty_def num_actions_def numeral_3_eq_3)
  have e1: "fill_col (replicate (length grid) [None, None, None :: real option]) 0 cost
              = Inr (replicate (length grid) [Some cost, None, None])"
    by (simp add: fill_col_def)
  have e2: "set_col (replicate (length grid) [Some cost, None, None]) 1 (map ?ol grid)
              = Inr (map (\<lambda>b. [Some cost, Some (?ol b), None]) grid)"
    using map2_replicate_left [of "\<lambda>r w. r[1 := Some w]" "map ?ol grid" "[Some cost, None, None]"]
    by (simp add: set_col_def comp_def)
  have e3: "set_col (map (\<lambda>b. [Some cost, Some (?ol b), None]) grid) 2 (map ?or grid)
              = Inr (map (\<lambda>b. [Some cost, Some (?ol b), Some (?or b)]) grid)"
    by (auto simp: set_col_def zip_map_map zip_same_conv_map comp_def numeral_2_eq_2)
  have e4: "concat (map (\<lambda>b. [Some cost, Some (?ol b), Some (?or b)]) grid)
              = map Some (concat (map (\<lambda>b. [cost, ?ol b, ?or b]) grid))"
    by (simp add: map_concat comp_def)
  show ?thesis
    unfolding reward_vector64_def Let_def
    by (simp only: e0 e1 e2 e3 e4 bind_err_Inr initialised_map_Some)
qed

lemma nearest_idx64_less: "grid \<noteq> [] \<Longrightarrow> nearest_idx64 grid v < length grid"
proof -
  assume "grid \<noteq> []"
  have "nearest_idx64 grid v \<le> length (mid_points64 grid)"
    by (simp add: nearest_idx64_def np_searchsorted_def)
  also have "\<dots> = length grid - 1"
    by (simp add: mid_points64_def)
  finally show ?thesis
    using \<open>grid \<noteq> []\<close> by (cases grid) simp_all
qed

lemma triplets_assembled64:
  fixes grid :: "real list"
  defines "G \<equiv> length grid"
  shows "zip (np_arange 0 (G * 3) 3 @ np_arange 0 (G * 3) 3
              @ np_arange 1 (G * 3) 3 @ np_arange 2 (G * 3) 3)
          (zip (map (\<lambda>b. nearest_idx64 grid (bayes_update_TL64 b noise64 noise64)) grid
                @ map (\<lambda>b. nearest_idx64 grid (bayes_update_TR64 b noise64 noise64)) grid
                @ replicate G h @ replicate G h)
               (map (\<lambda>b. prob_TL64 b noise64 noise64) grid
                @ map (\<lambda>b. prob_TR64 b noise64 noise64) grid
                @ replicate G 1 @ replicate G 1))
         = assembled64 grid h"
  by (simp add: G_def length_np_arange segment_zip segment_zip_replicate assembled64_def)

lemma tiger_mdp64_eq:
  assumes h: "np_argmin (map (\<lambda>b. \<bar>sub64 b (1 / 2)\<bar>) grid) = Inr h" and "h < length grid"
  shows "\<exists>Q. tiger_mdp64 grid beta =
           Inr \<lparr>dp_R = concat (map (\<lambda>b. [cost, add64 (mul64 penalty (sub64 1 b)) (mul64 reward b),
                                            add64 (mul64 reward (sub64 1 b)) (mul64 penalty b)]) grid),
                dp_Q = sum_duplicates64 Q, dp_beta = beta,
                dp_s_indices = np_repeat (np_arange 0 (length grid) 1) num_actions,
                dp_a_indices = np_tile (np_arange 0 num_actions 1) (length grid)\<rparr>
         \<and> triplets Q = assembled64 grid h
         \<and> coo_shape Q = (length grid * num_actions, length grid)"
proof -
  let ?G = "length grid"
  let ?d = "map (\<lambda>b. prob_TL64 b noise64 noise64) grid
            @ map (\<lambda>b. prob_TR64 b noise64 noise64) grid"
  let ?r = "np_arange 0 (?G * 3) 3 @ np_arange 0 (?G * 3) 3"
  let ?c = "map (\<lambda>b. nearest_idx64 grid (bayes_update_TL64 b noise64 noise64)) grid
            @ map (\<lambda>b. nearest_idx64 grid (bayes_update_TR64 b noise64 noise64)) grid"
  let ?data = "?d @ replicate ?G 1 @ replicate ?G 1"
  let ?row = "?r @ np_arange 1 (?G * 3) 3 @ np_arange 2 (?G * 3) 3"
  let ?col = "?c @ replicate ?G h @ replicate ?G h"
  let ?Q = "\<lparr>coo_shape = (?G * num_actions, ?G), coo_data = ?data, coo_row = ?row,
             coo_col = ?col\<rparr>"
  have ne: "grid \<noteq> []"
    using assms(2) by auto
  have listen: "listen_writes64 grid
           (np_empty (?G * (num_actions + 1)), np_empty (?G * (num_actions + 1)),
            np_empty (?G * (num_actions + 1)))
         = Inr (map Some ?d @ replicate (?G * 2) None, map Some ?r @ replicate (?G * 2) None,
                map Some ?c @ replicate (?G * 2) None)"
    by (simp add: np_empty_def num_actions_def listen_writes64_eq)
  have loop: "for_actions [1, 2] (open_writes ?G h)
           (map Some ?d @ replicate (?G * 2) None, map Some ?r @ replicate (?G * 2) None,
            map Some ?c @ replicate (?G * 2) None)
         = Inr (map Some ?data, map Some ?row, map Some ?col)"
    using for_actions_open_writes [of ?d ?G ?r ?c h]
    by (simp add: length_np_arange mult_2_right)
  have rows: "\<not> (\<exists>r \<in> set ?row. ?G * num_actions \<le> r)"
    using np_arange_less [of 0 _ ?G] np_arange_less [of 1 _ ?G] np_arange_less [of 2 _ ?G]
    by (auto simp: num_actions_def not_le)
  have cols: "\<not> (\<exists>c \<in> set ?col. ?G \<le> c)"
    using nearest_idx64_less [OF ne] assms(2) by (auto simp: not_le)
  have coo: "coo_matrix ?data ?row ?col (?G * num_actions, ?G) = Inr ?Q"
    unfolding coo_matrix_def using rows cols
    by (simp add: length_np_arange)
  have "tiger_mdp64 grid beta =
           Inr \<lparr>dp_R = concat (map (\<lambda>b. [cost, add64 (mul64 penalty (sub64 1 b)) (mul64 reward b),
                                            add64 (mul64 reward (sub64 1 b)) (mul64 penalty b)]) grid),
                dp_Q = sum_duplicates64 ?Q, dp_beta = beta,
                dp_s_indices = np_repeat (np_arange 0 (length grid) 1) num_actions,
                dp_a_indices = np_tile (np_arange 0 num_actions 1) (length grid)\<rparr>"
    unfolding tiger_mdp64_def Let_def
    by (simp only: reward_vector64_eq listen h loop bind_err_Inr prod.case
          initialised_map_Some coo)
  moreover have "triplets ?Q = assembled64 grid h"
    using triplets_assembled64 [of grid h] by (simp add: triplets_def)
  ultimately show ?thesis
    by (intro exI [of _ ?Q]) simp
qed

lemma triplets_sum_duplicates64:
  "triplets (sum_duplicates64 M) =
     map (\<lambda>(r, c). (r, c, reduce_add64 (map (\<lambda>(r', c', d). d)
                               (filter (\<lambda>(r', c', d). r' = r \<and> c' = c) (triplets M)))))
       (sort_key (\<lambda>(r, c). (c, r)) (remdups (map (\<lambda>(r, c, d). (r, c)) (triplets M))))"
  by (simp add: sum_duplicates64_def Let_def triplets_def [of "_\<lparr>coo_data := _, coo_row := _, coo_col := _\<rparr>"]
      zip3_map split_def)

lemma coo_keys_sum_duplicates64:
  "coo_keys (sum_duplicates64 M) =
     sort_key (\<lambda>(r, c). (c, r)) (remdups (map (\<lambda>(r, c, d). (r, c)) (triplets M)))"
  by (simp add: coo_keys_def triplets_sum_duplicates64 split_def comp_def)

lemma distinct_coo_keys_sum_duplicates64: "distinct (coo_keys (sum_duplicates64 M))"
  by (simp add: coo_keys_sum_duplicates64)

lemma row_entries_sum_duplicates64:
  "row_entries (sum_duplicates64 M) i =
     map (\<lambda>(r, c). (c, reduce_add64 (map (\<lambda>(r', c', d). d)
                            (filter (\<lambda>(r', c', d). r' = r \<and> c' = c) (triplets M)))))
       (filter (\<lambda>(r, c). r = i) (coo_keys (sum_duplicates64 M)))"
  by (simp add: row_entries_def triplets_sum_duplicates64 coo_keys_sum_duplicates64 filter_map
      comp_def split_def)

lemma row_sum_sum_duplicates64:
  "row_sum (sum_duplicates64 M) i =
     (\<Sum>k \<in> (\<lambda>(r, c, d). (r, c)) ` set (filter (\<lambda>(r, c, d). r = i) (triplets M)).
        reduce_add64 (map (\<lambda>(r, c, d). d)
          (filter (\<lambda>(r, c, d). c = snd k) (filter (\<lambda>(r, c, d). r = i) (triplets M)))))"
proof -
  let ?ts = "triplets M"
  let ?key = "\<lambda>t :: nat \<times> nat \<times> real. (fst t, fst (snd t))"
  let ?val = "\<lambda>t :: nat \<times> nat \<times> real. snd (snd t)"
  let ?S = "\<lambda>k. reduce_add64 (map ?val (filter (\<lambda>t. ?key t = k) ?ts))"
  let ?S' = "\<lambda>k. reduce_add64 (map ?val
               (filter (\<lambda>t. fst (snd t) = snd k) (filter (\<lambda>t. fst t = i) ?ts)))"
  let ?ks = "remdups (map ?key ?ts)"
  let ?K = "?key ` set (filter (\<lambda>t. fst t = i) ?ts)"
  have "row_sum (sum_duplicates64 M) i
          = sum_list (map ?S (filter (\<lambda>k. fst k = i) (sort_key (\<lambda>k. (snd k, fst k)) ?ks)))"
    by (simp add: row_sum_def row_entries_sum_duplicates64 coo_keys_sum_duplicates64
        comp_def split_def prod_eq_iff)
  also have "\<dots> = sum_list (map ?S (filter (\<lambda>k. fst k = i) ?ks))"
    by (rule sum_list_map_mset_cong) simp
  also have "\<dots> = sum ?S (set (filter (\<lambda>k. fst k = i) ?ks))"
    by (rule sum_list_distinct_conv_sum_set) simp
  also have "set (filter (\<lambda>k. fst k = i) ?ks) = ?K"
    by auto
  also have "sum ?S ?K = sum ?S' ?K"
  proof (rule sum.cong [OF refl])
    fix k assume "k \<in> ?K"
    then have "fst k = i" by auto
    then have "filter (\<lambda>t. ?key t = k) ?ts
                 = filter (\<lambda>t. fst (snd t) = snd k) (filter (\<lambda>t. fst t = i) ?ts)"
      by (auto simp: prod_eq_iff intro: filter_cong)
    then show "?S k = ?S' k" by simp
  qed
  finally show ?thesis
    by (simp add: split_def)
qed

lemma row_sum64_single:
  assumes "filter (\<lambda>(r, c, d). r = i) (triplets M) = [(i, c, d)]"
  shows "row_sum (sum_duplicates64 M) i = d"
  unfolding row_sum_sum_duplicates64 assms by (simp add: reduce_add64_def)

lemma row_sum64_pair:
  assumes "filter (\<lambda>(r, c, d). r = i) (triplets M) = [(i, c1, d1), (i, c2, d2)]"
  shows "row_sum (sum_duplicates64 M) i = (if c1 = c2 then add64 d1 d2 else d1 + d2)"
  unfolding row_sum_sum_duplicates64 assms by (auto simp: reduce_add64_def)

lemma assembled64_row:
  assumes "g < length grid" and "a < 3"
  shows "filter (\<lambda>(r, c, d). r = g * 3 + a) (assembled64 grid h) =
     (if a = 0
      then [(g * 3, nearest_idx64 grid (bayes_update_TL64 (grid ! g) noise64 noise64),
               prob_TL64 (grid ! g) noise64 noise64),
            (g * 3, nearest_idx64 grid (bayes_update_TR64 (grid ! g) noise64 noise64),
               prob_TR64 (grid ! g) noise64 noise64)]
      else [(g * 3 + a, h, 1)])"
proof -
  have "a = 0 \<or> a = 1 \<or> a = 2"
    using assms(2) by arith
  moreover have z: "(0::nat) < 3" "(1::nat) < 3" "(2::nat) < 3"
    by simp_all
  ultimately show ?thesis
    unfolding assembled64_def filter_append
      segment_row [OF assms(1) z(1) assms(2)]
      segment_row [OF assms(1) z(2) assms(2)]
      segment_row [OF assms(1) z(3) assms(2)]
    by auto
qed

lemma tiger_mdp64_row:
  assumes "g < length grid" and "a < 3"
  shows "\<exists>mdp. tiger_mdp64 grid beta = Inr mdp
           \<and> distinct (coo_keys (dp_Q mdp))
           \<and> (a = 0 \<longrightarrow>
                 row_sum (dp_Q mdp) (g * 3 + a)
                   = add64 (prob_TL64 (grid ! g) noise64 noise64)
                       (prob_TR64 (grid ! g) noise64 noise64)
               \<or> row_sum (dp_Q mdp) (g * 3 + a)
                   = prob_TL64 (grid ! g) noise64 noise64 + prob_TR64 (grid ! g) noise64 noise64)
           \<and> (a \<noteq> 0 \<longrightarrow> row_sum (dp_Q mdp) (g * 3 + a) = 1)"
proof -
  have ne: "map (\<lambda>b. \<bar>sub64 b (1 / 2)\<bar>) grid \<noteq> []"
    using assms(1) by auto
  obtain h where h: "np_argmin (map (\<lambda>b. \<bar>sub64 b (1 / 2)\<bar>) grid) = Inr h" "h < length grid"
    using np_argmin_props [OF ne] by auto
  obtain Q mdp where mdp: "tiger_mdp64 grid beta = Inr mdp" "dp_Q mdp = sum_duplicates64 Q"
    "triplets Q = assembled64 grid h"
    using tiger_mdp64_eq [OF h, of beta] by force
  have keys: "distinct (coo_keys (dp_Q mdp))"
    by (simp add: mdp(2) coo_keys_sum_duplicates64)
  show ?thesis
  proof (cases "a = 0")
    case True
    have "filter (\<lambda>(r, c, d). r = g * 3 + a) (triplets Q) =
            [(g * 3 + a, nearest_idx64 grid (bayes_update_TL64 (grid ! g) noise64 noise64),
                prob_TL64 (grid ! g) noise64 noise64),
             (g * 3 + a, nearest_idx64 grid (bayes_update_TR64 (grid ! g) noise64 noise64),
                prob_TR64 (grid ! g) noise64 noise64)]"
      unfolding mdp(3) assembled64_row [OF assms] using True by simp
    from row_sum64_pair [OF this]
    have "row_sum (dp_Q mdp) (g * 3 + a)
            = add64 (prob_TL64 (grid ! g) noise64 noise64) (prob_TR64 (grid ! g) noise64 noise64)
          \<or> row_sum (dp_Q mdp) (g * 3 + a)
            = prob_TL64 (grid ! g) noise64 noise64 + prob_TR64 (grid ! g) noise64 noise64"
      unfolding mdp(2) by (simp split: if_splits)
    then show ?thesis
      using mdp(1) keys True by blast
  next
    case False
    have "filter (\<lambda>(r, c, d). r = g * 3 + a) (triplets Q) = [(g * 3 + a, h, 1)]"
      unfolding mdp(3) assembled64_row [OF assms] using False by simp
    from row_sum64_single [OF this] have "row_sum (dp_Q mdp) (g * 3 + a) = 1"
      unfolding mdp(2) .
    then show ?thesis
      using mdp(1) keys False by blast
  qed
qed

section \<open>The claims\<close>

text \<open>Claim C1, as amended: for a strictly increasing belief grid within the unit interval,
  computed in float64, the two observation probabilities under the notebook's noise
  parameters are positive at every grid point, \<open>tiger_mdp\<close> returns, and every row
  \<open>(g, a)\<close> of the returned transition operator, for each of the three actions, sums to
  one within \<open>1e-14\<close> once \<^verbatim>\<open>sum_duplicates\<close> has merged the entries of equal position; the
  rows of OpenLeft and OpenRight sum to exactly one, and no position is stored twice.\<close>

theorem tiger_mdp64_rows_sum_near_one:
  assumes "sorted_wrt (<) grid" and "set grid \<subseteq> {0..1}"
    and "g < length grid" and "a < num_actions"
  shows "0 < prob_TL64 (grid ! g) noise64 noise64
       \<and> 0 < prob_TR64 (grid ! g) noise64 noise64
       \<and> (\<exists>mdp. tiger_mdp64 grid beta = Inr mdp
              \<and> \<bar>row_sum (dp_Q mdp) (g * num_actions + a) - 1\<bar> \<le> 1 / 10 ^ 14
              \<and> (a \<noteq> 0 \<longrightarrow> row_sum (dp_Q mdp) (g * num_actions + a) = 1)
              \<and> distinct (coo_keys (dp_Q mdp)))"
proof -
  have b: "grid ! g \<in> {0..1}"
    using assms(2,3) by (meson nth_mem subsetD)
  have a: "a < 3"
    using assms(4) by (simp add: num_actions_def)
  obtain mdp where mdp: "tiger_mdp64 grid beta = Inr mdp" "distinct (coo_keys (dp_Q mdp))"
    and listen: "a = 0 \<longrightarrow>
                 row_sum (dp_Q mdp) (g * 3 + a)
                   = add64 (prob_TL64 (grid ! g) noise64 noise64)
                       (prob_TR64 (grid ! g) noise64 noise64)
               \<or> row_sum (dp_Q mdp) (g * 3 + a)
                   = prob_TL64 (grid ! g) noise64 noise64 + prob_TR64 (grid ! g) noise64 noise64"
    and opens: "a \<noteq> 0 \<longrightarrow> row_sum (dp_Q mdp) (g * 3 + a) = 1"
    using tiger_mdp64_row [OF assms(3) a, of beta] by blast
  have small: "(12::real) / 2 ^ 51 \<le> 1 / 10 ^ 14" "(13::real) / 2 ^ 51 \<le> 1 / 10 ^ 14"
    by simp_all
  have "\<bar>row_sum (dp_Q mdp) (g * 3 + a) - 1\<bar> \<le> 1 / 10 ^ 14"
  proof (cases "a = 0")
    case True
    with listen show ?thesis
      using prob64_sum_error [OF b noise64_unit noise64_unit] small by (elim disjE impE) simp_all
  next
    case False
    with opens show ?thesis by simp
  qed
  then show ?thesis
    using mdp opens prob64_positive [OF b] unfolding num_actions_def by blast
qed

theorem tiger_mdp64_rows_sum_near_one_witness:
  "sorted_wrt (<) [0, 1 / 4, 1 / 2, 3 / 4, 1 :: real]
   \<and> set [0, 1 / 4, 1 / 2, 3 / 4, 1 :: real] \<subseteq> {0..1}
   \<and> (1::nat) < length [0, 1 / 4, 1 / 2, 3 / 4, 1 :: real]
   \<and> (0::nat) < num_actions \<and> (1::nat) < num_actions
   \<and> 0 < prob_TL64 ([0, 1 / 4, 1 / 2, 3 / 4, 1] ! 1) noise64 noise64
   \<and> 0 < prob_TR64 ([0, 1 / 4, 1 / 2, 3 / 4, 1] ! 1) noise64 noise64
   \<and> (\<exists>mdp. tiger_mdp64 [0, 1 / 4, 1 / 2, 3 / 4, 1] (19 / 20) = Inr mdp
          \<and> \<bar>row_sum (dp_Q mdp) (1 * num_actions + 0) - 1\<bar> \<le> 1 / 10 ^ 14
          \<and> row_sum (dp_Q mdp) (1 * num_actions + 1) = 1
          \<and> distinct (coo_keys (dp_Q mdp)))"
proof -
  let ?G = "[0, 1 / 4, 1 / 2, 3 / 4, 1 :: real]"
  have h: "sorted_wrt (<) ?G" "set ?G \<subseteq> {0..1}" "(1::nat) < length ?G"
    "(0::nat) < num_actions" "(1::nat) < num_actions"
    by (simp_all add: num_actions_def)
  obtain m0 where m0: "tiger_mdp64 ?G (19 / 20) = Inr m0"
    "\<bar>row_sum (dp_Q m0) (1 * num_actions + 0) - 1\<bar> \<le> 1 / 10 ^ 14"
    "distinct (coo_keys (dp_Q m0))"
    and p: "0 < prob_TL64 (?G ! 1) noise64 noise64" "0 < prob_TR64 (?G ! 1) noise64 noise64"
    using tiger_mdp64_rows_sum_near_one [OF h(1,2,3,4), of "19 / 20"] by blast
  obtain m1 where m1: "tiger_mdp64 ?G (19 / 20) = Inr m1"
    "row_sum (dp_Q m1) (1 * num_actions + 1) = 1"
    using tiger_mdp64_rows_sum_near_one [OF h(1,2,3,5), of "19 / 20"] by auto
  have "m1 = m0"
    using m0(1) m1(1) by simp
  then show ?thesis
    using h m0 m1 p by blast
qed

text \<open>Claim C1 as stated, with a sum of exactly one, fails on the grid
  \<open>[0, 0.25, 0.5, 0.75, 1]\<close>: the entries stored for the row of \<open>(1, Listen)\<close> are
  \<open>0.6749999999999999\<close> and \<open>0.32499999999999996\<close>, and their sum is \<open>1 - 2 ^ - 53\<close>.\<close>

theorem tiger_mdp64_row_sum_counterexample:
  "sorted_wrt (<) [0, 1 / 4, 1 / 2, 3 / 4, 1 :: real]
   \<and> set [0, 1 / 4, 1 / 2, 3 / 4, 1 :: real] \<subseteq> {0..1}
   \<and> (1::nat) < length [0, 1 / 4, 1 / 2, 3 / 4, 1 :: real] \<and> (0::nat) < num_actions
   \<and> tiger_mdp64 [0, 1 / 4, 1 / 2, 3 / 4, 1] (19 / 20)
        = Inr (projr (tiger_mdp64 [0, 1 / 4, 1 / 2, 3 / 4, 1] (19 / 20)))
   \<and> row_sum (dp_Q (projr (tiger_mdp64 [0, 1 / 4, 1 / 2, 3 / 4, 1] (19 / 20))))
        (1 * num_actions + 0) = 1 - 1 / 2 ^ 53
   \<and> (1 - 1 / 2 ^ 53 :: real) \<noteq> 1"
proof -
  let ?grid = "[0, 1 / 4, 1 / 2, 3 / 4, 1 :: real]"
  obtain mdp where mdp: "tiger_mdp64 ?grid (19 / 20) = Inr mdp"
    and row: "row_sum (dp_Q mdp) (1 * 3 + 0)
                   = add64 (prob_TL64 (?grid ! 1) noise64 noise64)
                       (prob_TR64 (?grid ! 1) noise64 noise64)
               \<or> row_sum (dp_Q mdp) (1 * 3 + 0)
                   = prob_TL64 (?grid ! 1) noise64 noise64 + prob_TR64 (?grid ! 1) noise64 noise64"
    using tiger_mdp64_row [of 1 ?grid 0 "19 / 20"] by auto
  have "add64 (prob_TL64 (1 / 4) noise64 noise64) (prob_TR64 (1 / 4) noise64 noise64)
          = 1 - 1 / 2 ^ 53"
    and "prob_TL64 (1 / 4) noise64 noise64 + prob_TR64 (1 / 4) noise64 noise64 = 1 - 1 / 2 ^ 53"
    unfolding prob64_quarter
    by (simp_all add: add64_def fl64_def expo64_def round_half_even_def Let_def ilog2.simps)
  then have "row_sum (dp_Q mdp) (1 * 3 + 0) = 1 - 1 / 2 ^ 53"
    using row by auto
  then show ?thesis
    using mdp by (simp add: num_actions_def)
qed



text \<open>Claim C3, as amended: for a strictly increasing grid and the value exactly halfway
  between \<open>grid[g]\<close> and \<open>grid[g+1]\<close>, \<open>nearest_idx\<close> returns the lower index \<open>g\<close>
  (\<^verbatim>\<open>searchsorted\<close> counts the mid points strictly below the value, and the mid point
  itself is not below it): a tie rounds down.\<close>

theorem nearest_idx_mid_point:
  assumes "sorted_wrt (<) grid" and "g + 1 < length grid"
  shows "nearest_idx grid (Num ((grid ! g + grid ! (g + 1)) / 2)) = g"
proof -
  have mono: "grid ! i < grid ! j" if "i < j" and "j < length grid" for i j
    using assms(1) that by (simp add: sorted_wrt_nth_less)
  have "np_lt (mid_points grid ! i) (Num ((grid ! g + grid ! (g + 1)) / 2)) = (i < g)"
    if "i < length (mid_points grid)" for i
  proof -
    have i: "i + 1 < length grid"
      using that by (simp add: length_mid_points)
    show ?thesis
    proof (cases "i < g")
      case True
      then have "grid ! i < grid ! g" and "grid ! (i + 1) < grid ! (g + 1)"
        using mono [of i g] mono [of "i + 1" "g + 1"] assms(2) by simp_all
      then show ?thesis
        using True i by (simp add: nth_mid_points)
    next
      case False
      then have "grid ! g \<le> grid ! i" and "grid ! (g + 1) \<le> grid ! (i + 1)"
        using mono [of g i] mono [of "g + 1" "i + 1"] i by (cases "i = g"; simp)+
      then show ?thesis
        using False i by (simp add: nth_mid_points)
    qed
  qed
  moreover have "g \<le> length (mid_points grid)"
    using assms(2) by (simp add: length_mid_points)
  ultimately show ?thesis
    unfolding nearest_idx_def np_searchsorted_def by (intro count_below)
qed

theorem nearest_idx_mid_point_witness:
  "sorted_wrt (<) [0, 1 :: real] \<and> (0::nat) + 1 < length [0, 1 :: real]
   \<and> nearest_idx [0, 1] (Num (([0, 1] ! 0 + [0, 1] ! (0 + 1)) / 2)) = 0"
  using nearest_idx_mid_point [of "[0, 1]" 0]
  by simp

text \<open>Claim C3 as stated, with the upper index \<open>g + 1\<close>, fails: on the grid \<open>[0, 1]\<close> the value
  \<open>1/2\<close> resolves to index 0, not 1.\<close>

theorem nearest_idx_mid_point_counterexample:
  "sorted_wrt (<) [0, 1 :: real] \<and> (0::nat) + 1 < length [0, 1 :: real]
   \<and> nearest_idx [0, 1] (Num (([0, 1] ! 0 + [0, 1] ! (0 + 1)) / 2)) \<noteq> 0 + 1"
  by (simp add: nearest_idx_def np_searchsorted_def mid_points_def)

text \<open>Claim C4, as amended: for every belief and every pair of noise parameters in the unit
  interval, the two observation probabilities as float64 computes them sum to one within
  \<open>1e-14\<close>, whether the sum is taken exactly or as a float64 addition.\<close>

theorem prob64_sum_near_one:
  assumes "b \<in> {0..1}" and "pL \<in> {0..1}" and "pR \<in> {0..1}"
  shows "\<bar>prob_TL64 b pL pR + prob_TR64 b pL pR - 1\<bar> \<le> 1 / 10 ^ 14
       \<and> \<bar>add64 (prob_TL64 b pL pR) (prob_TR64 b pL pR) - 1\<bar> \<le> 1 / 10 ^ 14"
proof -
  have "(12::real) / 2 ^ 51 \<le> 1 / 10 ^ 14" and "(13::real) / 2 ^ 51 \<le> 1 / 10 ^ 14"
    by simp_all
  then show ?thesis
    using prob64_sum_error [OF assms] by linarith
qed

theorem prob64_sum_near_one_witness:
  "(1 / 4 :: real) \<in> {0..1} \<and> noise64 \<in> {0..1}
   \<and> \<bar>prob_TL64 (1 / 4) noise64 noise64 + prob_TR64 (1 / 4) noise64 noise64 - 1\<bar> \<le> 1 / 10 ^ 14
   \<and> \<bar>add64 (prob_TL64 (1 / 4) noise64 noise64) (prob_TR64 (1 / 4) noise64 noise64) - 1\<bar>
        \<le> 1 / 10 ^ 14"
proof -
  have q: "(1 / 4 :: real) \<in> {0..1}"
    by simp
  show ?thesis
    using q noise64_unit prob64_sum_near_one [OF q noise64_unit noise64_unit] by simp
qed

text \<open>Claim C4 as stated, with a sum of exactly one, fails for the belief \<open>0.25\<close> and the
  default noise \<open>0.15\<close>: the two probabilities are \<open>0.6749999999999999\<close> and
  \<open>0.32499999999999996\<close>, and both their exact sum and their float64 sum are
  \<open>1 - 2 ^ - 53\<close>.\<close>

theorem prob64_sum_counterexample:
  "(1 / 4 :: real) \<in> {0..1} \<and> noise64 \<in> {0..1}
   \<and> fl64 (1 / 4) = 1 / 4 \<and> fl64 noise64 = noise64
   \<and> prob_TL64 (1 / 4) noise64 noise64 + prob_TR64 (1 / 4) noise64 noise64 = 1 - 1 / 2 ^ 53
   \<and> add64 (prob_TL64 (1 / 4) noise64 noise64) (prob_TR64 (1 / 4) noise64 noise64)
        = 1 - 1 / 2 ^ 53
   \<and> (1 - 1 / 2 ^ 53 :: real) \<noteq> 1"
  unfolding prob64_quarter
  by (simp add: noise64_value add64_def fl64_def expo64_def round_half_even_def Let_def ilog2.simps)

text \<open>Claim C5, as amended: on a strictly increasing grid of doubles within the unit
  interval, \<open>nearest_idx\<close> maps the grid point of index \<open>g\<close> to \<open>g\<close>, except when \<open>g > 0\<close> and
  the float64 mid point of \<open>grid[g-1]\<close> and \<open>grid[g]\<close> is not below \<open>grid[g]\<close> (the mid
  point of two neighbouring doubles can round onto the upper one); it returns \<open>g - 1\<close>
  then.\<close>

theorem nearest_idx64_grid_point:
  assumes "sorted_wrt (<) grid" and "set grid \<subseteq> {0..1}" and "list_all (\<lambda>x. fl64 x = x) grid"
    and "g < length grid"
  shows "nearest_idx64 grid (Num (grid ! g))
           = (if g = 0 \<or> mid_points64 grid ! (g - 1) < grid ! g then g else g - 1)"
proof -
  have mono: "grid ! i < grid ! j" if "i < j" and "j < length grid" for i j
    using assms(1) that by (simp add: sorted_wrt_nth_less)
  have lo: "grid ! i \<le> mid_points64 grid ! i" and hi: "mid_points64 grid ! i \<le> grid ! (i + 1)"
    if "i + 1 < length grid" for i
    using mid_points64_between [OF assms(1-3) that] by simp_all
  have above: "\<not> np_lt (mid_points64 grid ! i) (Num (grid ! g))"
    if "i < length (mid_points64 grid)" and "g \<le> i" for i
  proof -
    have i: "i + 1 < length grid"
      using that(1) by (simp add: length_mid_points64)
    have "grid ! g \<le> grid ! i"
      using mono [of g i] that(2) i by (cases "i = g") simp_all
    then show ?thesis
      using lo [OF i] by simp
  qed
  have below: "np_lt (mid_points64 grid ! i) (Num (grid ! g))" if "i + 1 < g" for i
  proof -
    have i: "i + 1 < length grid"
      using that assms(4) by simp
    have "grid ! (i + 1) < grid ! g"
      using mono [of "i + 1" g] that assms(4) by simp
    then show ?thesis
      using hi [OF i] by simp
  qed
  show ?thesis
  proof (cases "g = 0 \<or> mid_points64 grid ! (g - 1) < grid ! g")
    case True
    have "np_lt (mid_points64 grid ! i) (Num (grid ! g)) = (i < g)"
      if "i < length (mid_points64 grid)" for i
    proof (cases "i < g")
      case less: True
      show ?thesis
      proof (cases "i + 1 = g")
        case True
        then have "i = g - 1" and "g \<noteq> 0" by simp_all
        then show ?thesis
          using \<open>g = 0 \<or> mid_points64 grid ! (g - 1) < grid ! g\<close> less by simp
      next
        case False
        then show ?thesis
          using below [of i] less by simp
      qed
    next
      case False
      then show ?thesis
        using above [OF that] by simp
    qed
    moreover have "g \<le> length (mid_points64 grid)"
      using assms(4) by (simp add: length_mid_points64)
    ultimately have "nearest_idx64 grid (Num (grid ! g)) = g"
      unfolding nearest_idx64_def np_searchsorted_def by (intro count_below)
    then show ?thesis
      using True by simp
  next
    case False
    then have g: "0 < g" and eq: "\<not> mid_points64 grid ! (g - 1) < grid ! g"
      by simp_all
    have "np_lt (mid_points64 grid ! i) (Num (grid ! g)) = (i < g - 1)"
      if "i < length (mid_points64 grid)" for i
    proof (cases "i < g - 1")
      case True
      then show ?thesis
        using below [of i] by simp
    next
      case ge: False
      show ?thesis
      proof (cases "i = g - 1")
        case True
        then show ?thesis
          using eq by simp
      next
        case False
        then have "g \<le> i" using ge by simp
        then show ?thesis
          using above [OF that] ge by simp
      qed
    qed
    moreover have "g - 1 \<le> length (mid_points64 grid)"
      using assms(4) by (simp add: length_mid_points64)
    ultimately have "nearest_idx64 grid (Num (grid ! g)) = g - 1"
      unfolding nearest_idx64_def np_searchsorted_def by (intro count_below)
    then show ?thesis
      using False by simp
  qed
qed

theorem nearest_idx64_grid_point_witness:
  "sorted_wrt (<) [0, 1 / 4, 1 / 2, 3 / 4, 1 :: real]
   \<and> set [0, 1 / 4, 1 / 2, 3 / 4, 1 :: real] \<subseteq> {0..1}
   \<and> list_all (\<lambda>x. fl64 x = x) [0, 1 / 4, 1 / 2, 3 / 4, 1]
   \<and> (3::nat) < length [0, 1 / 4, 1 / 2, 3 / 4, 1 :: real]
   \<and> mid_points64 [0, 1 / 4, 1 / 2, 3 / 4, 1] ! (3 - 1) < [0, 1 / 4, 1 / 2, 3 / 4, 1] ! 3
   \<and> nearest_idx64 [0, 1 / 4, 1 / 2, 3 / 4, 1] (Num ([0, 1 / 4, 1 / 2, 3 / 4, 1] ! 3)) = 3"
proof -
  have m: "mid_points64 [0, 1 / 4, 1 / 2, 3 / 4, 1] ! (3 - 1) < [0, 1 / 4, 1 / 2, 3 / 4, 1] ! 3"
    by (simp add: mid_points64_def add64_def fl64_def expo64_def round_half_even_def Let_def
        ilog2.simps)
  show ?thesis
    using m fl64_grid5 nearest_idx64_grid_point [of "[0, 1 / 4, 1 / 2, 3 / 4, 1]" 3]
    by simp
qed

text \<open>Claim C5 as stated fails on the grid of the two neighbouring doubles \<open>1/2 + 2 ^ - 53\<close>
  and \<open>1/2 + 2 ^ - 52\<close>: their float64 mid point is the upper one, and the upper grid
  point resolves to index 0, not 1.\<close>

theorem nearest_idx64_grid_point_counterexample:
  "sorted_wrt (<) [1 / 2 + 1 / 2 ^ 53, 1 / 2 + 1 / 2 ^ 52 :: real]
   \<and> set [1 / 2 + 1 / 2 ^ 53, 1 / 2 + 1 / 2 ^ 52 :: real] \<subseteq> {0..1}
   \<and> fl64 (1 / 2 + 1 / 2 ^ 53) = 1 / 2 + 1 / 2 ^ 53
   \<and> fl64 (1 / 2 + 1 / 2 ^ 52) = 1 / 2 + 1 / 2 ^ 52
   \<and> (1::nat) < length [1 / 2 + 1 / 2 ^ 53, 1 / 2 + 1 / 2 ^ 52 :: real]
   \<and> nearest_idx64 [1 / 2 + 1 / 2 ^ 53, 1 / 2 + 1 / 2 ^ 52]
        (Num ([1 / 2 + 1 / 2 ^ 53, 1 / 2 + 1 / 2 ^ 52] ! 1)) = 0
   \<and> (0::nat) \<noteq> 1"
  by (simp add: nearest_idx64_def np_searchsorted_def mid_points64_def add64_def fl64_def
      expo64_def round_half_even_def Let_def ilog2.simps)



text \<open>Claim C7, as amended: the grid construction has no check of the count. For the count 0
  it returns the empty grid and for the count 1 the grid \<open>[0]\<close>; for a count \<open>G\<close> of at
  least 2 it returns \<open>G\<close> values from 0 to 1 inclusive, the \<open>i\<close>-th being \<open>i / (G - 1)\<close>, so
  that neighbours are \<open>1 / (G - 1)\<close> apart.\<close>

theorem belief_grid_of_values:
  "belief_grid_of 0 = [] \<and> belief_grid_of 1 = [0]
   \<and> (2 \<le> G \<longrightarrow>
        length (belief_grid_of G) = G
        \<and> (\<forall>i<G. belief_grid_of G ! i = real i / real (G - 1))
        \<and> belief_grid_of G ! 0 = 0 \<and> belief_grid_of G ! (G - 1) = 1
        \<and> (\<forall>i. i + 1 < G \<longrightarrow>
              belief_grid_of G ! (i + 1) - belief_grid_of G ! i = 1 / real (G - 1)))"
proof -
  have nth: "belief_grid_of G ! i = real i / real (G - 1)" if "2 \<le> G" and "i < G" for i
    using that by (auto simp: belief_grid_of_def np_linspace_def nth_list_update)
  have "belief_grid_of G ! (i + 1) - belief_grid_of G ! i = 1 / real (G - 1)"
    if "2 \<le> G" and "i + 1 < G" for i
    using that nth [of "i + 1"] nth [of i] by (simp add: field_simps)
  moreover have "length (belief_grid_of G) = G" if "2 \<le> G"
    using that by (simp add: belief_grid_of_def np_linspace_def)
  moreover have "belief_grid_of G ! 0 = 0" "belief_grid_of G ! (G - 1) = 1" if "2 \<le> G"
    using that nth [of 0] nth [of "G - 1"] by simp_all
  moreover have "belief_grid_of 0 = []" "belief_grid_of 1 = [0]"
    by (simp_all add: belief_grid_of_def np_linspace_def)
  ultimately show ?thesis
    using nth by blast
qed

theorem belief_grid_of_values_witness:
  "belief_grid_of 0 = [] \<and> belief_grid_of 1 = [0]
   \<and> (2::nat) \<le> 5
   \<and> length (belief_grid_of 5) = 5
   \<and> belief_grid_of 5 ! 3 = real 3 / real (5 - 1 :: nat)
   \<and> belief_grid_of 5 ! 0 = 0 \<and> belief_grid_of 5 ! (5 - 1) = 1
   \<and> belief_grid_of 5 ! (3 + 1) - belief_grid_of 5 ! 3 = 1 / real (5 - 1 :: nat)"
  using belief_grid_of_values [of 5]
  by auto

text \<open>Claim C7 as stated, that the construction fails for every count below 2, is false at
  the counts 1 and 0, where a grid is returned.\<close>

theorem belief_grid_of_counterexample:
  "(1::nat) < 2 \<and> belief_grid_of 1 = [0] \<and> (0::nat) < 2 \<and> belief_grid_of 0 = []"
  by (simp add: belief_grid_of_def np_linspace_def)

text \<open>Claim C8, as amended: when the denominator of a Bayesian update of an array element is
  exactly zero, the update raises nothing; its result is \<^verbatim>\<open>nan\<close> or an infinity, and it
  is \<^verbatim>\<open>nan\<close> whenever the belief and both noise parameters lie in the unit interval
  (the numerator is zero as well then).\<close>

theorem bayes_update_zero_denominator:
  "(prob_TL b pL pR = 0 \<longrightarrow>
      bayes_update_TL b pL pR \<in> {NaN, PosInf, NegInf}
      \<and> (b \<in> {0..1} \<and> pL \<in> {0..1} \<and> pR \<in> {0..1} \<longrightarrow> bayes_update_TL b pL pR = NaN))
   \<and> (prob_TR b pL pR = 0 \<longrightarrow>
      bayes_update_TR b pL pR \<in> {NaN, PosInf, NegInf}
      \<and> (b \<in> {0..1} \<and> pL \<in> {0..1} \<and> pR \<in> {0..1} \<longrightarrow> bayes_update_TR b pL pR = NaN))"
proof -
  have tl: "pR * b = 0"
    if "prob_TL b pL pR = 0" and "b \<in> {0..1}" and "pL \<in> {0..1}" and "pR \<in> {0..1}"
  proof -
    have "0 \<le> (1 - pL) * (1 - b)" and "0 \<le> pR * b"
      using that(2-4) by simp_all
    then show ?thesis
      using that(1) unfolding prob_TL_def by linarith
  qed
  have tr: "(1 - pR) * b = 0"
    if "prob_TR b pL pR = 0" and "b \<in> {0..1}" and "pL \<in> {0..1}" and "pR \<in> {0..1}"
  proof -
    have "0 \<le> pL * (1 - b)" and "0 \<le> (1 - pR) * b"
      using that(2-4) by simp_all
    then show ?thesis
      using that(1) unfolding prob_TR_def by linarith
  qed
  show ?thesis
    using tl tr by (auto simp: bayes_update_TL_def bayes_update_TR_def np_div_def)
qed

theorem bayes_update_zero_denominator_witness:
  "prob_TL 0 1 (3 / 20) = 0
   \<and> bayes_update_TL 0 1 (3 / 20) \<in> {NaN, PosInf, NegInf}
   \<and> (0::real) \<in> {0..1} \<and> (1::real) \<in> {0..1} \<and> (3 / 20 :: real) \<in> {0..1}
   \<and> bayes_update_TL 0 1 (3 / 20) = NaN
   \<and> prob_TR 0 0 (3 / 20) = 0
   \<and> bayes_update_TR 0 0 (3 / 20) \<in> {NaN, PosInf, NegInf}
   \<and> bayes_update_TR 0 0 (3 / 20) = NaN"
  using bayes_update_zero_denominator [of 0 1 "3 / 20"]
    bayes_update_zero_denominator [of 0 0 "3 / 20"]
  by (simp add: prob_TL_def prob_TR_def)

text \<open>Claim C8 as stated, that a zero denominator is reported and no \<^verbatim>\<open>nan\<close> is returned,
  is false for the belief 0 with \<open>noise_prob_L = 1\<close> (heard left) and with
  \<open>noise_prob_L = 0\<close> (heard right): both updates return \<^verbatim>\<open>nan\<close>.\<close>

theorem bayes_update_zero_counterexample:
  "prob_TL 0 1 (3 / 20) = 0 \<and> bayes_update_TL 0 1 (3 / 20) = NaN
   \<and> prob_TR 0 0 (3 / 20) = 0 \<and> bayes_update_TR 0 0 (3 / 20) = NaN"
  by (simp add: prob_TL_def prob_TR_def bayes_update_TL_def bayes_update_TR_def np_div_def)

text \<open>Claim C9: for a strictly increasing grid with at least one point, \<open>nearest_idx\<close> returns
  an index between 0 and \<open>G - 1\<close> for every real value (and for \<^verbatim>\<open>nan\<close> and the
  infinities as well), \<open>tiger_mdp\<close> passes the index check of \<^verbatim>\<open>coo_matrix\<close>, and every
  column index of the transition operator is the index of a grid point.\<close>

theorem nearest_idx_in_range:
  assumes "sorted_wrt (<) grid" and "grid \<noteq> []"
  shows "nearest_idx grid (Num v) \<le> length grid - 1
       \<and> (\<forall>w. nearest_idx grid w < length grid)
       \<and> (\<exists>mdp. tiger_mdp grid beta = Inr mdp
              \<and> (\<forall>c \<in> set (coo_col (dp_Q mdp)). c < length grid))"
proof -
  obtain h where h: "np_argmin (map (\<lambda>b. \<bar>b - 1 / 2\<bar>) grid) = Inr h" "h < length grid"
    using prob_half_idx_exists [OF assms(2)] by blast
  obtain Q mdp where mdp: "tiger_mdp grid beta = Inr mdp" "dp_Q mdp = sum_duplicates Q"
    "triplets Q = assembled grid h"
    using tiger_mdp_eq [OF h, of beta] by force
  have "\<forall>c \<in> set (coo_col (dp_Q mdp)). c < length grid"
    unfolding mdp(2) set_coo_col_sum_duplicates mdp(3)
    using assembled_cols [OF assms(2) h(2)] by auto
  moreover have "nearest_idx grid w < length grid" for w
    by (rule nearest_idx_less [OF assms(2)])
  moreover have "nearest_idx grid (Num v) \<le> length grid - 1"
    using nearest_idx_less [OF assms(2), of "Num v"] by simp
  ultimately show ?thesis
    using mdp(1) by blast
qed

theorem nearest_idx_in_range_witness:
  "sorted_wrt (<) [0, 1 / 2, 1 :: real] \<and> [0, 1 / 2, 1 :: real] \<noteq> []
   \<and> nearest_idx [0, 1 / 2, 1] (Num 7) \<le> length [0, 1 / 2, 1 :: real] - 1
   \<and> (\<forall>w. nearest_idx [0, 1 / 2, 1] w < length [0, 1 / 2, 1 :: real])
   \<and> (\<exists>mdp. tiger_mdp [0, 1 / 2, 1] (19 / 20) = Inr mdp
          \<and> (\<forall>c \<in> set (coo_col (dp_Q mdp)). c < length [0, 1 / 2, 1 :: real]))"
  using nearest_idx_in_range [of "[0, 1 / 2, 1]" 7 "19 / 20"]
  by simp



end
